theory Spec2Isabelle
  imports Complex_Main "HOL-Library.AList" "HOL-Library.Log_Nat"
begin

text \<open>
  The intake wizard of \<open>app.ts\<close>: the category catalog, the classifier
  \<open>detectCategory\<close>, the handlers of \<open>AiModalComponent\<close> with the conditions under
  which its template offers them, the ranker \<open>rankWorkers\<close>, the booking, and the job
  operations of \<open>FirebaseService\<close>. Handlers that update the component's signals are
  functions from the component's state to its new state; a handler that can throw returns
  a sum.
\<close>

section \<open>Strings\<close>

text \<open>
  A source string is modelled as a \<open>string\<close> whose characters are the code units of the
  source string in the range 0..255 (the ISO-8859-1 block of UTF-16). The string
  primitives of the runtime that \<open>app.ts\<close> relies on are written out for that range:
  \<open>toLowerCase\<close>, \<open>trim\<close>, \<open>includes\<close>, \<open>split(/\W+/)\<close> and \<open>join\<close>.
  Strings with code units above 255 are outside the model; there \<open>toLowerCase\<close> can
  turn a non-word character into a word character (U+212A becomes \<open>k\<close>) and one code
  unit into two (U+0130), so lower-casing and splitting do not commute. Nothing below
  swaps the two: every statement keeps them in the order of the source.
\<close>

definition toLowerChar :: "char \<Rightarrow> char" where
  "toLowerChar c =
     (let n = (of_char c :: nat)
      in if (65 \<le> n \<and> n \<le> 90) \<or> (192 \<le> n \<and> n \<le> 222 \<and> n \<noteq> 215)
         then char_of (n + 32) else c)"

definition toLowerCase :: "string \<Rightarrow> string" where
  "toLowerCase s = map toLowerChar s"

definition isWhiteSpace :: "char \<Rightarrow> bool" where
  "isWhiteSpace c = ((of_char c :: nat) \<in> {9, 10, 11, 12, 13, 32, 160})"

definition trim :: "string \<Rightarrow> string" where
  "trim s = rev (dropWhile isWhiteSpace (rev (dropWhile isWhiteSpace s)))"

text \<open>The class \<open>\w\<close> of the regular expression: ASCII letters, digits and underscore.\<close>

definition isWordChar :: "char \<Rightarrow> bool" where
  "isWordChar c =
     (let n = (of_char c :: nat)
      in (48 \<le> n \<and> n \<le> 57) \<or> (65 \<le> n \<and> n \<le> 90) \<or> n = 95 \<or> (97 \<le> n \<and> n \<le> 122))"

text \<open>
  \<open>s.split(/\W+/)\<close>: the pieces between maximal runs of non-word characters. A run
  at the start or at the end leaves an empty piece there, and the empty string splits
  into one empty piece. The flag says that the scan is inside a run of separators.
\<close>

fun splitGo :: "bool \<Rightarrow> string \<Rightarrow> string \<Rightarrow> string list" where
  "splitGo inSep cur [] = [cur]"
| "splitGo inSep cur (c # cs) =
     (if isWordChar c then splitGo False (cur @ [c]) cs
      else if inSep then splitGo True cur cs
      else cur # splitGo True [] cs)"

definition splitNonWord :: "string \<Rightarrow> string list" where
  "splitNonWord s = splitGo False [] s"

fun startsWith :: "string \<Rightarrow> string \<Rightarrow> bool" where
  "startsWith s [] = True"
| "startsWith [] (k # ks) = False"
| "startsWith (c # cs) (k # ks) = (c = k \<and> startsWith cs ks)"

text \<open>\<open>s.includes(kw)\<close>: \<open>kw\<close> occurs in \<open>s\<close> as a contiguous run.\<close>

fun includesStr :: "string \<Rightarrow> string \<Rightarrow> bool" where
  "includesStr [] kw = (kw = [])"
| "includesStr (c # cs) kw = (startsWith (c # cs) kw \<or> includesStr cs kw)"

fun join :: "string \<Rightarrow> string list \<Rightarrow> string" where
  "join sep [] = []"
| "join sep [x] = x"
| "join sep (x # y # ys) = x @ sep @ join sep (y # ys)"

section \<open>Domain model\<close>

datatype Role = Customer | Worker

datatype JobStatus = Pending | Accepted | Completed | Canceled

datatype ServiceCategoryId = Plumber | Electrician | Painter | Driver | General

text \<open>A category identifier is a string at run time; this is the string it is.\<close>

fun catName :: "ServiceCategoryId \<Rightarrow> string" where
  "catName Plumber = ''Plumber''"
| "catName Electrician = ''Electrician''"
| "catName Painter = ''Painter''"
| "catName Driver = ''Driver''"
| "catName General = ''General''"

datatype FaqType = TextQ | BooleanQ | SelectQ

record FaqItem =
  faq_id :: string
  faq_type :: FaqType
  question :: string
  options :: "string list option"

text \<open>The \<open>icon\<close> glyph of a category is display text that no operation reads; it is left out.\<close>

record CategoryDefinition =
  cat_id :: ServiceCategoryId
  title :: string
  cat_keywords :: "string list"
  faqs :: "FaqItem list"

record WorkerProfile =
  worker_id :: string
  name :: string
  role :: Role
  location :: string
  specialty :: string
  bio :: string
  rating :: rat
  jobsCompleted :: nat
  available :: bool
  skills :: "string list"
  hourlyRate :: rat

record Job =
  job_id :: string
  customerId :: string
  workerId :: string
  job_category :: string
  description :: string
  status :: JobStatus
  createdAt :: nat
  updatedAt :: nat

definition CATEGORY_DEFS :: "CategoryDefinition list" where
  "CATEGORY_DEFS =
   [ \<lparr> cat_id = Plumber, title = ''Plumber'',
       cat_keywords = [''leak'', ''pipe'', ''sink'', ''drain'', ''toilet'', ''water heater'',
                   ''clog'', ''faucet'', ''sewer''],
       faqs =
        [ \<lparr> faq_id = ''location'', faq_type = SelectQ, question = ''Where is the issue located?'',
            options = Some [''Kitchen'', ''Bathroom'', ''Basement'', ''Laundry'', ''Outdoor''] \<rparr>,
          \<lparr> faq_id = ''severity'', faq_type = SelectQ, question = ''How severe is the issue?'',
            options = Some [''Minor drip'', ''Slow drain'', ''No water'', ''Flooding''] \<rparr>,
          \<lparr> faq_id = ''shutoff'', faq_type = BooleanQ,
            question = ''Have you tried shutting off the water?'', options = None \<rparr>,
          \<lparr> faq_id = ''age'', faq_type = SelectQ, question = ''Approximate age of the fixture?'',
            options = Some [''<1 year'', ''1-3 years'', ''3-5 years'', ''5+ years'', ''Unknown''] \<rparr> ] \<rparr>,
     \<lparr> cat_id = Electrician, title = ''Electrician'',
       cat_keywords = [''outlet'', ''breaker'', ''fuse'', ''light'', ''wiring'', ''short'', ''power'',
                   ''spark'', ''switch''],
       faqs =
        [ \<lparr> faq_id = ''scope'', faq_type = SelectQ, question = ''Which is affected?'',
            options = Some [''Single outlet'', ''Room'', ''Multiple rooms'', ''Whole home''] \<rparr>,
          \<lparr> faq_id = ''breaker'', faq_type = BooleanQ, question = ''Did the breaker trip?'',
            options = None \<rparr>,
          \<lparr> faq_id = ''smell'', faq_type = BooleanQ, question = ''Do you notice burning smell?'',
            options = None \<rparr>,
          \<lparr> faq_id = ''age'', faq_type = SelectQ, question = ''Age of electrical system?'',
            options = Some [''<5 years'', ''5-10 years'', ''10-20 years'', ''20+ years'',
                            ''Unknown''] \<rparr> ] \<rparr>,
     \<lparr> cat_id = Painter, title = ''Painter'',
       cat_keywords = [''paint'', ''wall'', ''peel'', ''crack'', ''color'', ''primer'', ''roller'',
                   ''brush'', ''exterior'', ''interior''],
       faqs =
        [ \<lparr> faq_id = ''area'', faq_type = SelectQ, question = ''Where do you need painting?'',
            options = Some [''Interior walls'', ''Ceiling'', ''Exterior walls'', ''Trim/Doors'',
                            ''Fence/Deck''] \<rparr>,
          \<lparr> faq_id = ''size'', faq_type = SelectQ, question = ''Approximate area size?'',
            options = Some [''<100 sq ft'', ''100-300 sq ft'', ''300-600 sq ft'', ''600+ sq ft''] \<rparr>,
          \<lparr> faq_id = ''finish'', faq_type = SelectQ, question = ''Preferred finish?'',
            options = Some [''Matte'', ''Eggshell'', ''Satin'', ''Semi-gloss'', ''Gloss''] \<rparr>,
          \<lparr> faq_id = ''prep'', faq_type = BooleanQ,
            question = ''Is surface prep (sanding/patching) needed?'', options = None \<rparr> ] \<rparr>,
     \<lparr> cat_id = Driver, title = ''Driver'',
       cat_keywords = [''ride'', ''drive'', ''pickup'', ''drop off'', ''transport'', ''deliver'',
                   ''airport'', ''taxi'', ''car''],
       faqs =
        [ \<lparr> faq_id = ''vehicle'', faq_type = SelectQ, question = ''Vehicle type needed?'',
            options = Some [''Sedan'', ''SUV'', ''Van/Truck'', ''No preference''] \<rparr>,
          \<lparr> faq_id = ''distance'', faq_type = SelectQ, question = ''Trip distance?'',
            options = Some [''<5 miles'', ''5-15 miles'', ''15-30 miles'', ''30+ miles''] \<rparr>,
          \<lparr> faq_id = ''time'', faq_type = SelectQ, question = ''When do you need it?'',
            options = Some [''ASAP'', ''Today'', ''This week'', ''Later date''] \<rparr>,
          \<lparr> faq_id = ''luggage'', faq_type = BooleanQ,
            question = ''Do you have large luggage/items?'', options = None \<rparr> ] \<rparr>,
     \<lparr> cat_id = General, title = ''General Help'',
       cat_keywords = [''help'', ''handyman'', ''task'', ''assemble'', ''mount'', ''fix'', ''repair'',
                   ''install'', ''move''],
       faqs =
        [ \<lparr> faq_id = ''task'', faq_type = TextQ, question = ''Briefly describe the task'',
            options = None \<rparr>,
          \<lparr> faq_id = ''urgency'', faq_type = SelectQ, question = ''How urgent is it?'',
            options = Some [''ASAP'', ''Today'', ''This week'', ''Flexible''] \<rparr>,
          \<lparr> faq_id = ''tools'', faq_type = BooleanQ, question = ''Do you have necessary tools?'',
            options = None \<rparr> ] \<rparr> ]"

text \<open>
  \<open>CATEGORY_BY_ID\<close> is built by a \<open>reduce\<close> that stores each definition under its
  identifier, a later definition replacing an earlier one with the same identifier.
\<close>

definition CATEGORY_BY_ID :: "ServiceCategoryId \<rightharpoonup> CategoryDefinition" where
  "CATEGORY_BY_ID = fold (\<lambda>c acc. acc(cat_id c \<mapsto> c)) CATEGORY_DEFS Map.empty"

section \<open>Classifier\<close>

text \<open>
  \<open>c.keywords.reduce((acc, kw) => acc + (lower.includes(kw) ? 1 : 0), 0)\<close>.
  A count of array elements is below \<open>2 ^ 32\<close>, where the program's numbers are
  exact; counts are natural numbers.
\<close>

definition keywordScore :: "string \<Rightarrow> CategoryDefinition \<Rightarrow> nat" where
  "keywordScore lower c = fold (\<lambda>kw acc. acc + (if includesStr lower kw then 1 else 0)) (cat_keywords c) 0"

text \<open>The loop of \<open>detectCategory\<close> over the remaining definitions, with the best so far.\<close>

fun detectLoop :: "string \<Rightarrow> CategoryDefinition list \<Rightarrow> ServiceCategoryId \<times> nat
    \<Rightarrow> ServiceCategoryId \<times> nat" where
  "detectLoop lower [] best = best"
| "detectLoop lower (c # cs) best =
     (let score = keywordScore lower c
      in detectLoop lower cs (if score > snd best then (cat_id c, score) else best))"

definition detectIn :: "CategoryDefinition list \<Rightarrow> string \<Rightarrow> ServiceCategoryId" where
  "detectIn defs text =
     (let lower = toLowerCase text;
          best = detectLoop lower defs (General, 0)
      in if snd best > 0 then fst best else General)"

definition detectCategory :: "string \<Rightarrow> ServiceCategoryId" where
  "detectCategory text = detectIn CATEGORY_DEFS text"

section \<open>Numbers\<close>

text \<open>
  A source \<open>number\<close> is an IEEE-754 binary64 value. It is modelled by the rational it
  denotes, and every arithmetic operation rounds its exact result to 53 significant bits,
  ties to even. The exponent range is not bounded (no overflow to \<open>Infinity\<close>, no
  subnormal numbers) and there is no \<open>NaN\<close>.
\<close>

definition roundHalfEven :: "rat \<Rightarrow> int" where
  "roundHalfEven x =
     (let f = \<lfloor>x\<rfloor>; d = x - of_int f
      in if d < 1 / 2 then f else if 1 / 2 < d then f + 1 else if even f then f else f + 1)"

text \<open>For \<open>q > 0\<close>, the exponent \<open>e\<close> with \<open>2 ^ e \<le> q < 2 ^ (e + 1)\<close>.\<close>

definition binExponent :: "rat \<Rightarrow> int" where
  "binExponent q = (if 1 \<le> q then bitlen \<lfloor>q\<rfloor> - 1 else - bitlen (\<lceil>1 / q\<rceil> - 1))"

definition toDouble :: "rat \<Rightarrow> rat" where
  "toDouble q =
     (if q = 0 then 0
      else let u = 2 powi (binExponent \<bar>q\<bar> - 52)
           in sgn q * of_int (roundHalfEven (\<bar>q\<bar> / u)) * u)"

definition fadd :: "rat \<Rightarrow> rat \<Rightarrow> rat" where
  "fadd a b = toDouble (a + b)"

definition fsub :: "rat \<Rightarrow> rat \<Rightarrow> rat" where
  "fsub a b = toDouble (a - b)"

definition fmul :: "rat \<Rightarrow> rat \<Rightarrow> rat" where
  "fmul a b = toDouble (a * b)"

section \<open>Arrays\<close>

text \<open>
  \<open>Array.prototype.sort(cmp)\<close> is a stable sort whose algorithm the engine chooses;
  it is modelled by stable insertion: an element goes before the first later element that
  the comparator does not put in front of it.
\<close>

fun insertBy :: "('a \<Rightarrow> 'a \<Rightarrow> rat) \<Rightarrow> 'a \<Rightarrow> 'a list \<Rightarrow> 'a list" where
  "insertBy cmp x [] = [x]"
| "insertBy cmp x (y # ys) = (if cmp x y \<le> 0 then x # y # ys else y # insertBy cmp x ys)"

definition sortBy :: "('a \<Rightarrow> 'a \<Rightarrow> rat) \<Rightarrow> 'a list \<Rightarrow> 'a list" where
  "sortBy cmp xs = foldr (insertBy cmp) xs []"

section \<open>The wizard\<close>

datatype error = TypeError | NotFound

datatype Step = Start | Faqs | Results

datatype AnswerValue = StrAns string | BoolAns bool

text \<open>
  \<open>answers\<close> is an object used as a dictionary. An object enumerates its keys that are
  array indices (strings of decimal digits) first, and then its other keys in the order in
  which they were first set; setting a key again keeps its place. The keys of
  \<open>answers\<close> are FAQ identifiers of the catalog, none of which is an array index, so
  \<open>answers\<close> is an association list under \<open>AList.update\<close>.
\<close>

definition isArrayIndex :: "string \<Rightarrow> bool" where
  "isArrayIndex k = (k \<noteq> [] \<and> list_all (\<lambda>c. 48 \<le> (of_char c :: nat) \<and> (of_char c :: nat) \<le> 57) k)"

record ChatState =
  isOpen :: bool
  step :: Step
  category :: ServiceCategoryId
  problem :: string
  faqIndex :: int
  answers :: "(string \<times> AnswerValue) list"
  ranked :: "WorkerProfile list"

record AiModal =
  input_isOpen :: bool
  state :: ChatState
  draftProblem :: string
  currentAnswerText :: string

definition freshState :: "bool \<Rightarrow> ChatState" where
  "freshState opn =
     \<lparr> isOpen = opn, step = Start, category = General, problem = [], faqIndex = 0,
       answers = [], ranked = [] \<rparr>"

definition initialModal :: AiModal where
  "initialModal =
     \<lparr> input_isOpen = False, state = freshState False, draftProblem = [],
       currentAnswerText = [] \<rparr>"

text \<open>Reading a property of \<open>undefined\<close> throws; the derived values are partial for that.\<close>

definition categoryDef :: "ChatState \<Rightarrow> CategoryDefinition option" where
  "categoryDef s = CATEGORY_BY_ID (category s)"

definition faqsOf :: "ChatState \<Rightarrow> FaqItem list option" where
  "faqsOf s = map_option faqs (categoryDef s)"

text \<open>\<open>this.faqs()[this.state().faqIndex] ?? this.faqs()[0]\<close>\<close>

definition currentFaq :: "ChatState \<Rightarrow> FaqItem option" where
  "currentFaq s =
     (case faqsOf s of
        None \<Rightarrow> None
      | Some fs \<Rightarrow>
          if 0 \<le> faqIndex s \<and> faqIndex s < int (length fs) then Some (fs ! nat (faqIndex s))
          else (case fs of [] \<Rightarrow> None | f # _ \<Rightarrow> Some f))"

definition ngOnChanges :: "AiModal \<Rightarrow> AiModal" where
  "ngOnChanges m =
     (if input_isOpen m
      then m\<lparr> state := freshState True, draftProblem := [], currentAnswerText := [] \<rparr>
      else m)"

definition close :: "AiModal \<Rightarrow> AiModal" where
  "close m = m\<lparr> state := (state m)\<lparr> isOpen := False \<rparr> \<rparr>"

definition submitProblem :: "AiModal \<Rightarrow> AiModal" where
  "submitProblem m =
     (let prob = trim (draftProblem m);
          cat = detectCategory prob
      in m\<lparr> state := (state m)\<lparr> step := Faqs, problem := prob, category := cat, faqIndex := 0,
                                answers := [] \<rparr>,
            currentAnswerText := [] \<rparr>)"

definition answerBoolean :: "bool \<Rightarrow> AiModal \<Rightarrow> error + AiModal" where
  "answerBoolean v m =
     (case currentFaq (state m) of
        None \<Rightarrow> Inl TypeError
      | Some faq \<Rightarrow>
          Inr (m\<lparr> state := (state m)\<lparr> answers :=
                 AList.update (faq_id faq) (BoolAns v) (answers (state m)) \<rparr> \<rparr>))"

definition answerSelect :: "string \<Rightarrow> AiModal \<Rightarrow> error + AiModal" where
  "answerSelect v m =
     (case currentFaq (state m) of
        None \<Rightarrow> Inl TypeError
      | Some faq \<Rightarrow>
          Inr (m\<lparr> state := (state m)\<lparr> answers :=
                 AList.update (faq_id faq) (StrAns v) (answers (state m)) \<rparr> \<rparr>))"

definition prevFaq :: "AiModal \<Rightarrow> AiModal" where
  "prevFaq m = m\<lparr> state := (state m)\<lparr> faqIndex := max 0 (faqIndex (state m) - 1) \<rparr> \<rparr>"

section \<open>Ranking\<close>

text \<open>The literal \<open>1.2\<close> is the double nearest to 6/5.\<close>

definition ratingWeight :: rat where
  "ratingWeight = toDouble (6 / 5)"

definition answerTokens :: "AnswerValue \<Rightarrow> string list" where
  "answerTokens v = (case v of StrAns t \<Rightarrow> splitNonWord (toLowerCase t) | BoolAns b \<Rightarrow> [])"

definition rankKeywords :: "CategoryDefinition \<Rightarrow> ChatState \<Rightarrow> string list" where
  "rankKeywords cd s = cat_keywords cd @ concat (map (\<lambda>(k, v). answerTokens v) (answers s))"

definition skillMatch :: "string list \<Rightarrow> WorkerProfile \<Rightarrow> nat" where
  "skillMatch kws w =
     fold (\<lambda>sk acc. acc + (if toLowerCase sk \<in> set kws then 1 else 0)) (skills w) 0"

definition scoreWorker :: "string list \<Rightarrow> ServiceCategoryId \<Rightarrow> WorkerProfile \<Rightarrow> rat" where
  "scoreWorker kws cat w =
     (let specialtyBoost = (if specialty w = catName cat then 2 else 0);
          ratingScore = rating w;
          availabilityBonus = (if available w then 2 else 0)
      in fadd (fadd (fadd (fmul (of_nat (skillMatch kws w)) 3) specialtyBoost)
                    (fmul ratingScore ratingWeight))
              availabilityBonus)"

definition rankWith :: "('w \<Rightarrow> rat) \<Rightarrow> 'w list \<Rightarrow> 'w list" where
  "rankWith score workers =
     map fst (take 3 (sortBy (\<lambda>a b. fsub (snd b) (snd a)) (map (\<lambda>w. (w, score w)) workers)))"

definition rankWorkers :: "WorkerProfile list \<Rightarrow> ChatState \<Rightarrow> error + WorkerProfile list" where
  "rankWorkers workers s =
     (case CATEGORY_BY_ID (category s) of
        None \<Rightarrow> Inl TypeError
      | Some cd \<Rightarrow> Inr (rankWith (scoreWorker (rankKeywords cd s) (category s)) workers))"

definition recordText :: "FaqItem \<Rightarrow> AiModal \<Rightarrow> AiModal" where
  "recordText faq m =
     (if faq_type faq = TextQ \<and> trim (currentAnswerText m) \<noteq> []
      then m\<lparr> state := (state m)\<lparr> answers :=
                 AList.update (faq_id faq) (StrAns (trim (currentAnswerText m)))
                   (answers (state m)) \<rparr>,
             currentAnswerText := [] \<rparr>
      else m)"

text \<open>\<open>nextFaq\<close> reads the worker roster \<open>this.fb.allWorkers()\<close> when it ranks.\<close>

definition nextFaq :: "WorkerProfile list \<Rightarrow> AiModal \<Rightarrow> error + AiModal" where
  "nextFaq workers m =
     (case currentFaq (state m) of
        None \<Rightarrow> Inl TypeError
      | Some faq \<Rightarrow>
          (let m1 = recordText faq m
           in case faqsOf (state m1) of
                None \<Rightarrow> Inl TypeError
              | Some fs \<Rightarrow>
                  if faqIndex (state m1) < int (length fs) - 1
                  then Inr (m1\<lparr> state := (state m1)\<lparr> faqIndex := faqIndex (state m1) + 1 \<rparr> \<rparr>)
                  else (case rankWorkers workers (state m1) of
                          Inl e \<Rightarrow> Inl e
                        | Inr rk \<Rightarrow>
                            Inr (m1\<lparr> state := (state m1)\<lparr> step := Results, ranked := rk \<rparr> \<rparr>))))"

section \<open>The score, in the words of its description\<close>

text \<open>
  The pieces into which the non-word characters split a string: the word characters up to
  the first non-word character and, when there is one, the pieces of what follows the run
  of non-word characters that it starts.
\<close>

function specPieces :: "string \<Rightarrow> string list" where
  "specPieces s =
     takeWhile isWordChar s #
     (case dropWhile isWordChar s of
        [] \<Rightarrow> []
      | c # r \<Rightarrow> specPieces (dropWhile (\<lambda>x. \<not> isWordChar x) r))"
  by pat_completeness auto
termination
proof (relation "measure length")
  show "wf (measure length)"
    by simp
next
  fix s :: string and c r
  assume d: "dropWhile isWordChar s = c # r"
  have "length (dropWhile (\<lambda>x. \<not> isWordChar x) r) \<le> length r"
    by (rule length_dropWhile_le)
  moreover have "length (c # r) \<le> length s"
    using length_dropWhile_le [of isWordChar s] d by simp
  ultimately show "(dropWhile (\<lambda>x. \<not> isWordChar x) r, s) \<in> measure length"
    by simp
qed

declare specPieces.simps [simp del]

text \<open>
  The combined keyword set: the category's keywords, and the pieces of every string answer,
  lower-cased and split at its non-word characters, in the order in which the source does
  the two (it lower-cases the answer and then splits it); a boolean answer gives none.
  \<open>specSkillMatch\<close> counts the worker's skills whose lower-case form is in that set.
  The sum and the products of \<open>specScore\<close> are those of the program's numbers.
\<close>

definition specKeywordSet :: "CategoryDefinition \<Rightarrow> (string \<times> AnswerValue) list \<Rightarrow> string set" where
  "specKeywordSet cd ans =
     set (cat_keywords cd) \<union>
     \<Union> (set (map (\<lambda>(k, v). case v of StrAns t \<Rightarrow> set (specPieces (toLowerCase t))
                                     | BoolAns b \<Rightarrow> {}) ans))"

definition specSkillMatch :: "string set \<Rightarrow> WorkerProfile \<Rightarrow> nat" where
  "specSkillMatch K w = length (filter (\<lambda>sk. toLowerCase sk \<in> K) (skills w))"

definition specSpecialtyBoost :: "ServiceCategoryId \<Rightarrow> WorkerProfile \<Rightarrow> rat" where
  "specSpecialtyBoost c w = (if specialty w = catName c then 2 else 0)"

definition specAvailabilityBonus :: "WorkerProfile \<Rightarrow> rat" where
  "specAvailabilityBonus w = (if available w then 2 else 0)"

definition specScore :: "CategoryDefinition \<Rightarrow> ServiceCategoryId \<Rightarrow> (string \<times> AnswerValue) list
    \<Rightarrow> WorkerProfile \<Rightarrow> rat" where
  "specScore cd c ans w =
     fadd (fadd (fadd (fmul (of_nat (specSkillMatch (specKeywordSet cd ans) w)) 3)
                      (specSpecialtyBoost c w))
                (fmul (rating w) (toDouble (6 / 5))))
          (specAvailabilityBonus w)"

text \<open>The score without the availability bonus.\<close>

definition baseScore :: "string list \<Rightarrow> ServiceCategoryId \<Rightarrow> WorkerProfile \<Rightarrow> rat" where
  "baseScore kws cat w =
     fadd (fadd (fmul (of_nat (skillMatch kws w)) 3) (if specialty w = catName cat then 2 else 0))
          (fmul (rating w) ratingWeight)"

section \<open>The job store\<close>

text \<open>
  \<open>FirebaseService\<close>, as far as jobs go: the signed-in user, the worker roster and the
  \<open>jobs\<close> collection of the document store, a map from document identifier to job,
  absent when no store is configured. The identifier that the store generates for a new
  document and the server's time are parameters of the operations.
\<close>

record FirebaseService =
  currentFirebaseUser :: "string option"
  allWorkers :: "WorkerProfile list"
  db :: "(string \<rightharpoonup> Job) option"

text \<open>\<open>updateDoc\<close> fails on a document that does not exist.\<close>

definition updateStatus :: "JobStatus \<Rightarrow> FirebaseService \<Rightarrow> nat \<Rightarrow> string
    \<Rightarrow> error + FirebaseService" where
  "updateStatus st fb now jobId =
     (case db fb of
        None \<Rightarrow> Inr fb
      | Some jobs \<Rightarrow>
          (case jobs jobId of
             None \<Rightarrow> Inl NotFound
           | Some j \<Rightarrow> Inr (fb\<lparr> db := Some (jobs(jobId \<mapsto> j\<lparr> status := st, updatedAt := now \<rparr>)) \<rparr>)))"

definition cancelJob :: "FirebaseService \<Rightarrow> nat \<Rightarrow> string \<Rightarrow> error + FirebaseService" where
  "cancelJob fb now jobId = updateStatus Canceled fb now jobId"

definition acceptJob :: "FirebaseService \<Rightarrow> nat \<Rightarrow> string \<Rightarrow> error + FirebaseService" where
  "acceptJob fb now jobId = updateStatus Accepted fb now jobId"

definition completeJob :: "FirebaseService \<Rightarrow> nat \<Rightarrow> string \<Rightarrow> error + FirebaseService" where
  "completeJob fb now jobId = updateStatus Completed fb now jobId"

definition createJobForWorker :: "FirebaseService \<Rightarrow> string \<Rightarrow> nat \<Rightarrow> WorkerProfile \<Rightarrow> string
    \<Rightarrow> string \<Rightarrow> FirebaseService" where
  "createJobForWorker fb newId now worker cat descr =
     (case currentFirebaseUser fb of
        None \<Rightarrow> fb
      | Some u \<Rightarrow>
          (case db fb of
             None \<Rightarrow> fb
           | Some jobs \<Rightarrow>
               fb\<lparr> db := Some (jobs(newId \<mapsto>
                     \<lparr> job_id = newId, customerId = u, workerId = worker_id worker,
                       job_category = cat, description = descr, status = Pending,
                       createdAt = now, updatedAt = now \<rparr>)) \<rparr>))"

text \<open>\<open>(w.specialty as ServiceCategoryId) || 'General'\<close>: the empty string is falsy.\<close>

definition quickBook :: "FirebaseService \<Rightarrow> string \<Rightarrow> nat \<Rightarrow> WorkerProfile \<Rightarrow> FirebaseService" where
  "quickBook fb newId now w =
     createJobForWorker fb newId now w
       (if specialty w = [] then ''General'' else specialty w)
       (''Quick booking for '' @ specialty w)"

text \<open>
  The job lists of the two dashboards and the actions their cards carry: a customer's card
  has a Cancel button when its job shows as pending, and the worker's dashboard lists the
  pending jobs, each with an Accept button. No template calls \<open>completeJob\<close>.
\<close>

datatype JobAction = CancelAction string | AcceptAction string

definition customerJobActions :: "Job list \<Rightarrow> JobAction list" where
  "customerJobActions jobs =
     concat (map (\<lambda>j. if status j = Pending then [CancelAction (job_id j)] else []) jobs)"

definition pendingWorkerJobs :: "Job list \<Rightarrow> Job list" where
  "pendingWorkerJobs jobs = filter (\<lambda>j. status j = Pending) jobs"

definition workerJobActions :: "Job list \<Rightarrow> JobAction list" where
  "workerJobActions jobs = map (\<lambda>j. AcceptAction (job_id j)) (pendingWorkerJobs jobs)"

definition runJobAction :: "FirebaseService \<Rightarrow> nat \<Rightarrow> JobAction \<Rightarrow> error + FirebaseService" where
  "runJobAction fb now a =
     (case a of CancelAction i \<Rightarrow> cancelJob fb now i | AcceptAction i \<Rightarrow> acceptJob fb now i)"

section \<open>Booking\<close>

text \<open>\<open>String(v)\<close>\<close>

definition stringOf :: "AnswerValue \<Rightarrow> string" where
  "stringOf v = (case v of StrAns t \<Rightarrow> t | BoolAns b \<Rightarrow> (if b then ''true'' else ''false''))"

definition bookDescription :: "ChatState \<Rightarrow> string" where
  "bookDescription s =
     join '' | '' (problem s # map (\<lambda>(k, v). k @ '': '' @ stringOf v) (answers s))"

definition book :: "FirebaseService \<Rightarrow> string \<Rightarrow> nat \<Rightarrow> AiModal \<Rightarrow> WorkerProfile
    \<Rightarrow> FirebaseService \<times> AiModal" where
  "book fb newId now m worker =
     (let s = state m
      in (createJobForWorker fb newId now worker (catName (category s)) (bookDescription s),
          close m))"

section \<open>The wizard's events\<close>

text \<open>
  The handlers run when the template lets them: everything is inside
  \<open>@if (state().isOpen)\<close>, each step shows its own controls, a question shows the
  control of its kind, the Back button is disabled at the first question, and a results
  card books the worker it shows. \<open>ngOnChanges\<close> runs when the framework sets the
  \<open>isOpen\<close> input. Booking changes the component as \<open>close\<close> does; what it
  writes to the store is in \<open>book\<close>.
\<close>

datatype Event =
    SetIsOpen bool
  | Close
  | DraftInput string
  | SubmitProblem
  | AnswerTextInput string
  | AnswerBoolean bool
  | AnswerSelect string
  | PrevFaq
  | NextFaq "WorkerProfile list"
  | Book WorkerProfile

definition showsKind :: "FaqType \<Rightarrow> ChatState \<Rightarrow> bool" where
  "showsKind k s =
     (isOpen s \<and> step s = Faqs \<and>
      (case currentFaq s of None \<Rightarrow> False | Some faq \<Rightarrow> faq_type faq = k))"

fun enabled :: "AiModal \<Rightarrow> Event \<Rightarrow> bool" where
  "enabled m (SetIsOpen b) = True"
| "enabled m Close = isOpen (state m)"
| "enabled m (DraftInput t) = (isOpen (state m) \<and> step (state m) = Start)"
| "enabled m SubmitProblem = (isOpen (state m) \<and> step (state m) = Start)"
| "enabled m (AnswerTextInput t) = showsKind TextQ (state m)"
| "enabled m (AnswerBoolean v) = showsKind BooleanQ (state m)"
| "enabled m (AnswerSelect v) =
     (showsKind SelectQ (state m) \<and>
      (case currentFaq (state m) of
         None \<Rightarrow> False
       | Some faq \<Rightarrow> (case options faq of None \<Rightarrow> False | Some os \<Rightarrow> v \<in> set os)))"
| "enabled m PrevFaq = (isOpen (state m) \<and> step (state m) = Faqs \<and> faqIndex (state m) \<noteq> 0)"
| "enabled m (NextFaq ws) = (isOpen (state m) \<and> step (state m) = Faqs)"
| "enabled m (Book w) =
     (isOpen (state m) \<and> step (state m) = Results \<and> w \<in> set (ranked (state m)))"

fun fire :: "Event \<Rightarrow> AiModal \<Rightarrow> error + AiModal" where
  "fire (SetIsOpen b) m = Inr (ngOnChanges (m\<lparr> input_isOpen := b \<rparr>))"
| "fire Close m = Inr (close m)"
| "fire (DraftInput t) m = Inr (m\<lparr> draftProblem := t \<rparr>)"
| "fire SubmitProblem m = Inr (submitProblem m)"
| "fire (AnswerTextInput t) m = Inr (m\<lparr> currentAnswerText := t \<rparr>)"
| "fire (AnswerBoolean v) m = answerBoolean v m"
| "fire (AnswerSelect v) m = answerSelect v m"
| "fire PrevFaq m = Inr (prevFaq m)"
| "fire (NextFaq ws) m = nextFaq ws m"
| "fire (Book w) m = Inr (close m)"

inductive reachable :: "AiModal \<Rightarrow> bool" where
  reach_init: "reachable initialModal"
| reach_step: "reachable m \<Longrightarrow> enabled m ev \<Longrightarrow> fire ev m = Inr m' \<Longrightarrow> reachable m'"

text \<open>Running a list of events from a state, as long as each is enabled and succeeds.\<close>

fun runEvents :: "Event list \<Rightarrow> AiModal \<Rightarrow> AiModal option" where
  "runEvents [] m = Some m"
| "runEvents (ev # evs) m =
     (if enabled m ev
      then (case fire ev m of Inl e \<Rightarrow> None | Inr m' \<Rightarrow> runEvents evs m')
      else None)"

section \<open>The invariant of the wizard\<close>

text \<open>
  The question index is within the questionnaire of the active category; workers are
  ranked only at the results; and the ranked workers are at most 3, in non-increasing
  order of their score for the category and the answers of the state.
\<close>

definition wizardInv :: "AiModal \<Rightarrow> bool" where
  "wizardInv m =
     (let s = state m
      in case categoryDef s of
           None \<Rightarrow> False
         | Some cd \<Rightarrow>
             0 \<le> faqIndex s \<and> faqIndex s \<le> int (length (faqs cd)) - 1 \<and>
             (ranked s = [] \<or> step s = Results) \<and>
             length (ranked s) \<le> 3 \<and>
             sorted_wrt (\<lambda>a b. scoreWorker (rankKeywords cd s) (category s) b
                               \<le> scoreWorker (rankKeywords cd s) (category s) a) (ranked s))"

section \<open>Observations and sample inputs\<close>

text \<open>The status under which the store holds a job, if it holds it.\<close>

definition jobStatus :: "FirebaseService \<Rightarrow> string \<Rightarrow> JobStatus option" where
  "jobStatus fb jobId = (case db fb of None \<Rightarrow> None | Some jobs \<Rightarrow> map_option status (jobs jobId))"

text \<open>The wizard at the first question of the General questionnaire, two spaces typed.\<close>

definition blankTextModal :: AiModal where
  "blankTextModal =
     \<lparr> input_isOpen = True, state = (freshState True)\<lparr> step := Faqs \<rparr>, draftProblem = [],
       currentAnswerText = ''  '' \<rparr>"

text \<open>The leaking sink: a plumber, the wizard at its results, and a store with no job yet.\<close>

definition sinkWorker :: WorkerProfile where
  "sinkWorker =
     \<lparr> worker_id = ''w1'', name = ''Pat'', role = Worker, location = ''Nearby'', specialty = ''Plumber'',
       bio = [], rating = 24 / 5, jobsCompleted = 12, available = True,
       skills = [''plumbing'', ''leak repair''], hourlyRate = 50 \<rparr>"

definition sinkModal :: AiModal where
  "sinkModal =
     \<lparr> input_isOpen = True,
       state = \<lparr> isOpen = True, step = Results, category = Plumber,
                 problem = ''My kitchen sink is leaking badly'', faqIndex = 3,
                 answers = [(''location'', StrAns ''Kitchen''), (''severity'', StrAns ''Flooding''),
                            (''shutoff'', BoolAns True), (''age'', StrAns ''1-3 years'')],
                 ranked = [sinkWorker] \<rparr>,
       draftProblem = ''My kitchen sink is leaking badly'', currentAnswerText = [] \<rparr>"

definition sinkService :: FirebaseService where
  "sinkService = \<lparr> currentFirebaseUser = Some ''u1'', allWorkers = [sinkWorker], db = Some Map.empty \<rparr>"

text \<open>A store whose only job is completed.\<close>

definition doneJob :: Job where
  "doneJob =
     \<lparr> job_id = ''j1'', customerId = ''u1'', workerId = ''w1'', job_category = ''Plumber'',
       description = ''Quick booking for Plumber'', status = Completed, createdAt = 1,
       updatedAt = 5 \<rparr>"

definition doneService :: FirebaseService where
  "doneService = \<lparr> currentFirebaseUser = Some ''u1'', allWorkers = [], db = Some [''j1'' \<mapsto> doneJob] \<rparr>"

text \<open>Two workers who differ in availability (and in identifier) only.\<close>

definition idleWorker :: "bool \<Rightarrow> WorkerProfile" where
  "idleWorker av =
     \<lparr> worker_id = (if av then ''w2'' else ''w3''), name = ''Sam'', role = Worker,
       location = ''Nearby'', specialty = ''Painter'', bio = [], rating = 2, jobsCompleted = 0,
       available = av, skills = [], hourlyRate = 40 \<rparr>"

text \<open>A wizard state at the last question of the Plumber questionnaire.\<close>

definition idleState :: ChatState where
  "idleState =
     \<lparr> isOpen = True, step = Faqs, category = Plumber, problem = ''drain'', faqIndex = 3,
       answers = [(''location'', StrAns ''Kitchen''), (''shutoff'', BoolAns False)],
       ranked = [] \<rparr>"

text \<open>An electrician, and the session of the leaking sink from opening to the results.\<close>

definition sparkWorker :: WorkerProfile where
  "sparkWorker =
     \<lparr> worker_id = ''w2'', name = ''Lee'', role = Worker, location = ''Nearby'', specialty = ''Electrician'',
       bio = [], rating = 49 / 10, jobsCompleted = 30, available = True,
       skills = [''wiring''], hourlyRate = 60 \<rparr>"

definition sinkEvents :: "Event list" where
  "sinkEvents =
     [SetIsOpen True, DraftInput ''My kitchen sink is leaking badly'', SubmitProblem,
      AnswerSelect ''Kitchen'', NextFaq [sparkWorker, sinkWorker],
      AnswerSelect ''Flooding'', NextFaq [sparkWorker, sinkWorker],
      AnswerBoolean True, NextFaq [sparkWorker, sinkWorker],
      AnswerSelect ''1-3 years'', NextFaq [sparkWorker, sinkWorker]]"

text \<open>The session of the leaking sink before its last step.\<close>

definition sinkLast :: AiModal where
  "sinkLast =
     \<lparr> input_isOpen = True,
       state = \<lparr> isOpen = True, step = Faqs, category = Plumber,
                 problem = ''My kitchen sink is leaking badly'', faqIndex = 3,
                 answers = [(''location'', StrAns ''Kitchen''), (''severity'', StrAns ''Flooding''),
                            (''shutoff'', BoolAns True), (''age'', StrAns ''1-3 years'')],
                 ranked = [] \<rparr>,
       draftProblem = ''My kitchen sink is leaking badly'', currentAnswerText = [] \<rparr>"

text \<open>
  A plumber whose skills meet the keyword set of the sample session in three ways: one is
  a piece of an answer, one is a keyword of the category, and one is the text of a boolean
  answer, which is no keyword.
\<close>

definition kitchenWorker :: WorkerProfile where
  "kitchenWorker =
     \<lparr> worker_id = ''w4'', name = ''Kim'', role = Worker, location = ''Nearby'',
       specialty = ''Plumber'', bio = [], rating = 24 / 5, jobsCompleted = 3, available = True,
       skills = [''Kitchen'', ''LEAK'', ''wiring'', ''true''], hourlyRate = 45 \<rparr>"

section \<open>The catalog is total\<close>

lemma CATEGORY_BY_ID_total:
  "\<exists>cd. CATEGORY_BY_ID c = Some cd \<and> cat_id cd = c \<and> cd \<in> set CATEGORY_DEFS \<and> faqs cd \<noteq> []"
  by (cases c) (simp_all add: CATEGORY_BY_ID_def CATEGORY_DEFS_def)

lemma faqsOf_total: "\<exists>fs. faqsOf s = Some fs \<and> fs \<noteq> []"
  using CATEGORY_BY_ID_total [of "category s"] by (auto simp: faqsOf_def categoryDef_def)

lemma currentFaq_total: "\<exists>faq. currentFaq s = Some faq"
  using faqsOf_total [of s] by (auto simp: currentFaq_def split: list.splits)

lemma catalog_ids_not_indices:
  "\<forall>cd \<in> set CATEGORY_DEFS. \<forall>f \<in> set (faqs cd). \<not> isArrayIndex (faq_id f)"
  by code_simp

section \<open>Recording an answer\<close>

text \<open>
  C10. \<open>answerBoolean\<close> and \<open>answerSelect\<close> never fail and change nothing but the
  answers: the entry under the current question's identifier is set to the given value,
  in place when the identifier already has an entry and at the end otherwise. The open
  flag, the step, the category, the problem text, the question index and the ranked list
  stay as they are, and so do the two text inputs of the component.
\<close>

theorem answer_frame:
  "\<exists>faq m1 m2.
     currentFaq (state m) = Some faq \<and>
     answerBoolean b m = Inr m1 \<and> answerSelect v m = Inr m2 \<and>
     map_of (answers (state m1)) = (map_of (answers (state m)))(faq_id faq \<mapsto> BoolAns b) \<and>
     map_of (answers (state m2)) = (map_of (answers (state m)))(faq_id faq \<mapsto> StrAns v) \<and>
     map fst (answers (state m1)) =
       (if faq_id faq \<in> set (map fst (answers (state m))) then map fst (answers (state m))
        else map fst (answers (state m)) @ [faq_id faq]) \<and>
     map fst (answers (state m2)) = map fst (answers (state m1)) \<and>
     m1 = m\<lparr> state := (state m)\<lparr> answers := answers (state m1) \<rparr> \<rparr> \<and>
     m2 = m\<lparr> state := (state m)\<lparr> answers := answers (state m2) \<rparr> \<rparr> \<and>
     isOpen (state m1) = isOpen (state m) \<and> isOpen (state m2) = isOpen (state m) \<and>
     step (state m1) = step (state m) \<and> step (state m2) = step (state m) \<and>
     category (state m1) = category (state m) \<and> category (state m2) = category (state m) \<and>
     problem (state m1) = problem (state m) \<and> problem (state m2) = problem (state m) \<and>
     faqIndex (state m1) = faqIndex (state m) \<and> faqIndex (state m2) = faqIndex (state m) \<and>
     ranked (state m1) = ranked (state m) \<and> ranked (state m2) = ranked (state m)"
proof -
  obtain faq where f: "currentFaq (state m) = Some faq"
    using currentFaq_total by blast
  show ?thesis
    by (simp add: f answerBoolean_def answerSelect_def update_conv' update_keys)
qed

section \<open>Submitting the problem\<close>

text \<open>
  C3, as the code has it. \<open>submitProblem\<close> has no guard: whatever the draft is, blank
  included, it moves to the questionnaire, stores the trimmed draft as the problem, sets
  the category to the classifier's result on the trimmed draft, resets the question index
  to 0, clears the answers and clears the pending free-text answer. The open flag, the
  ranked list and the draft itself stay as they are.
\<close>

theorem submitProblem_effect:
  "state (submitProblem m) =
     \<lparr> isOpen = isOpen (state m), step = Faqs, category = detectCategory (trim (draftProblem m)),
       problem = trim (draftProblem m), faqIndex = 0, answers = [], ranked = ranked (state m) \<rparr>
   \<and> currentAnswerText (submitProblem m) = []
   \<and> draftProblem (submitProblem m) = draftProblem m"
  by (simp add: submitProblem_def Let_def)

text \<open>A draft of two spaces is empty after trimming, and submitting it leaves the first step.\<close>

theorem submitProblem_blank_counterexample:
  "trim ''  '' = [] \<and>
   step (state (initialModal\<lparr> state := freshState True, draftProblem := ''  '' \<rparr>)) = Start \<and>
   step (state (submitProblem (initialModal\<lparr> state := freshState True, draftProblem := ''  '' \<rparr>)))
     = Faqs"
  by (simp add: submitProblem_def Let_def freshState_def trim_def isWhiteSpace_def)

section \<open>Advancing\<close>

lemma rankWorkers_total: "\<exists>rk. rankWorkers ws s = Inr rk"
  using CATEGORY_BY_ID_total [of "category s"] by (auto simp: rankWorkers_def)

text \<open>
  C2, as the code has it. At a free-text question whose pending answer is empty or only
  white space, \<open>nextFaq\<close> records no answer and raises no error, and it advances all the
  same: the question index goes up by one, or, at the last question, the step becomes
  the results with the ranking filled in.
\<close>

theorem nextFaq_blank_text:
  assumes "currentFaq (state m) = Some faq" and "faq_type faq = TextQ"
    and "trim (currentAnswerText m) = []"
  shows "\<exists>fs rk m'. faqsOf (state m) = Some fs \<and> rankWorkers ws (state m) = Inr rk \<and>
           nextFaq ws m = Inr m' \<and>
           answers (state m') = answers (state m) \<and>
           m' = (if faqIndex (state m) < int (length fs) - 1
                 then m\<lparr> state := (state m)\<lparr> faqIndex := faqIndex (state m) + 1 \<rparr> \<rparr>
                 else m\<lparr> state := (state m)\<lparr> step := Results, ranked := rk \<rparr> \<rparr>)"
proof -
  obtain fs where fs: "faqsOf (state m) = Some fs"
    using faqsOf_total by blast
  obtain rk where rk: "rankWorkers ws (state m) = Inr rk"
    using rankWorkers_total by blast
  have rec: "recordText faq m = m"
    using assms by (simp add: recordText_def)
  show ?thesis
    using assms by (simp add: nextFaq_def rec fs rk)
qed

text \<open>
  At the free-text question of the General questionnaire, with two spaces typed,
  \<open>nextFaq\<close> moves from question 0 to question 1.
\<close>

theorem nextFaq_blank_text_counterexample:
  "step (state blankTextModal) = Faqs \<and>
   map_option faq_type (currentFaq (state blankTextModal)) = Some TextQ \<and>
   trim (currentAnswerText blankTextModal) = [] \<and>
   faqIndex (state blankTextModal) = 0 \<and>
   map_sum id (\<lambda>m. faqIndex (state m)) (nextFaq [] blankTextModal) = Inr 1"
  by code_simp

theorem nextFaq_blank_text_witness:
  "currentFaq (state blankTextModal) =
     Some \<lparr> faq_id = ''task'', faq_type = TextQ, question = ''Briefly describe the task'',
            options = None \<rparr> \<and>
   trim (currentAnswerText blankTextModal) = [] \<and>
   nextFaq [] blankTextModal
     = Inr (blankTextModal\<lparr> state := (state blankTextModal)\<lparr> faqIndex := 1 \<rparr> \<rparr>)"
proof -
  have c: "currentFaq (state blankTextModal) =
     Some \<lparr> faq_id = ''task'', faq_type = TextQ, question = ''Briefly describe the task'',
            options = None \<rparr>"
    by code_simp
  have t: "trim (currentAnswerText blankTextModal) = []"
    by code_simp
  have f: "faqsOf (state blankTextModal) = Some (faqs (CATEGORY_DEFS ! 4))"
    by code_simp
  have l: "length (faqs (CATEGORY_DEFS ! 4)) = 3"
    by code_simp
  have i: "faqIndex (state blankTextModal) = 0"
    by code_simp
  show ?thesis
    using nextFaq_blank_text [OF c _ t, of "[]"] c t by (auto simp: f l i)
qed

section \<open>Booking\<close>

lemma join_Cons: "join sep (x # xs) = x @ concat (map (\<lambda>y. sep @ y) xs)"
  by (induction xs arbitrary: x) simp_all

lemma bookDescription_eq:
  "bookDescription s =
     problem s @ concat (map (\<lambda>(k, v). '' | '' @ k @ '': '' @ stringOf v) (answers s))"
  by (simp add: bookDescription_def join_Cons comp_def case_prod_unfold)

text \<open>
  C6. With a signed-in user and a store, \<open>book\<close> writes one job under the new identifier
  and closes the wizard. The job's description is the problem text followed, for every
  answer in the order of the answers, by the delimiter \<open>" | "\<close> and the answer as
  \<open>key: value\<close>, a string value as it is and a boolean as \<open>true\<close> or \<open>false\<close>;
  its status is Pending.
\<close>

theorem book_emits_pending_job:
  assumes "currentFirebaseUser fb = Some u" and "db fb = Some jobs"
  shows "\<exists>j. book fb newId now m w = (fb\<lparr> db := Some (jobs(newId \<mapsto> j)) \<rparr>, close m) \<and>
           description j =
             problem (state m) @
             concat (map (\<lambda>(k, v). '' | '' @ k @ '': '' @ stringOf v) (answers (state m))) \<and>
           status j = Pending \<and> job_id j = newId \<and> customerId j = u \<and>
           workerId j = worker_id w \<and> job_category j = catName (category (state m)) \<and>
           stringOf (StrAns t) = t \<and> stringOf (BoolAns True) = ''true'' \<and>
           stringOf (BoolAns False) = ''false''"
proof -
  let ?j = "\<lparr> job_id = newId, customerId = u, workerId = worker_id w,
             job_category = catName (category (state m)),
             description = bookDescription (state m), status = Pending,
             createdAt = now, updatedAt = now \<rparr>"
  have "book fb newId now m w = (fb\<lparr> db := Some (jobs(newId \<mapsto> ?j)) \<rparr>, close m)"
    using assms by (simp add: book_def createJobForWorker_def Let_def)
  moreover have "description ?j =
      problem (state m) @
      concat (map (\<lambda>(k, v). '' | '' @ k @ '': '' @ stringOf v) (answers (state m)))"
    by (simp add: bookDescription_eq)
  moreover have "stringOf (StrAns t) = t \<and> stringOf (BoolAns True) = ''true'' \<and>
      stringOf (BoolAns False) = ''false''"
    by (simp add: stringOf_def)
  ultimately show ?thesis
    by (intro exI [of _ ?j]) simp
qed

theorem book_emits_pending_job_witness:
  "currentFirebaseUser sinkService = Some ''u1'' \<and> db sinkService = Some Map.empty \<and>
   (\<exists>j. book sinkService ''j1'' 7 sinkModal sinkWorker
           = (sinkService\<lparr> db := Some [''j1'' \<mapsto> j] \<rparr>, close sinkModal) \<and>
         description j =
           ''My kitchen sink is leaking badly | location: Kitchen | severity: Flooding | shutoff: true | age: 1-3 years'' \<and>
         status j = Pending)"
proof -
  have u: "currentFirebaseUser sinkService = Some ''u1''" and d: "db sinkService = Some Map.empty"
    by (simp_all add: sinkService_def)
  show ?thesis
    using book_emits_pending_job [OF u d, of "''j1''" 7 sinkModal sinkWorker] u d
    by (auto simp: sinkModal_def stringOf_def)
qed

section \<open>Job status\<close>

text \<open>
  C8, as the code has it. \<open>cancelJob\<close>, \<open>acceptJob\<close> and \<open>completeJob\<close> test nothing:
  on a job that the store holds, whatever its status, they succeed and leave it Canceled,
  Accepted and Completed. The order of the statuses is kept by the templates alone: the
  customer's list offers Cancel only on a job it shows as Pending, and the worker's
  list offers Accept only on a job it shows as Pending. A job is created with status
  Pending, by the wizard's booking and by the quick booking alike.
\<close>

theorem status_operations:
  "(jobStatus fb i = Some st \<longrightarrow>
      (\<exists>fb'. cancelJob fb now i = Inr fb' \<and> jobStatus fb' i = Some Canceled) \<and>
      (\<exists>fb'. acceptJob fb now i = Inr fb' \<and> jobStatus fb' i = Some Accepted) \<and>
      (\<exists>fb'. completeJob fb now i = Inr fb' \<and> jobStatus fb' i = Some Completed)) \<and>
   (\<forall>a \<in> set (customerJobActions jobs).
      \<exists>j \<in> set jobs. a = CancelAction (job_id j) \<and> status j = Pending) \<and>
   (\<forall>a \<in> set (workerJobActions jobs).
      \<exists>j \<in> set jobs. a = AcceptAction (job_id j) \<and> status j = Pending) \<and>
   (currentFirebaseUser fb \<noteq> None \<and> db fb \<noteq> None \<longrightarrow>
      jobStatus (createJobForWorker fb newId now w c d) newId = Some Pending \<and>
      jobStatus (quickBook fb newId now w) newId = Some Pending)"
  by (auto simp: jobStatus_def cancelJob_def acceptJob_def completeJob_def updateStatus_def
        customerJobActions_def workerJobActions_def pendingWorkerJobs_def
        createJobForWorker_def quickBook_def split: option.splits if_splits)

text \<open>A completed job is canceled by \<open>cancelJob\<close> and accepted by \<open>acceptJob\<close>.\<close>

theorem cancel_completed_counterexample:
  "jobStatus doneService ''j1'' = Some Completed \<and>
   (\<exists>fb'. cancelJob doneService 9 ''j1'' = Inr fb' \<and> jobStatus fb' ''j1'' = Some Canceled) \<and>
   (\<exists>fb'. acceptJob doneService 9 ''j1'' = Inr fb' \<and> jobStatus fb' ''j1'' = Some Accepted)"
  by (simp add: jobStatus_def doneService_def doneJob_def cancelJob_def acceptJob_def
        updateStatus_def)

theorem status_operations_witness:
  "jobStatus doneService ''j1'' = Some Completed \<and>
   (\<exists>fb'. completeJob doneService 9 ''j1'' = Inr fb' \<and> jobStatus fb' ''j1'' = Some Completed) \<and>
   set (customerJobActions [doneJob, doneJob\<lparr> job_id := ''j2'', status := Pending \<rparr>])
     = {CancelAction ''j2''} \<and>
   set (workerJobActions [doneJob, doneJob\<lparr> job_id := ''j2'', status := Pending \<rparr>])
     = {AcceptAction ''j2''} \<and>
   jobStatus (createJobForWorker doneService ''j3'' 9 sinkWorker ''Plumber'' ''Leak'') ''j3''
     = Some Pending"
proof -
  have s: "jobStatus doneService ''j1'' = Some Completed"
    by (simp add: jobStatus_def doneService_def doneJob_def)
  have u: "currentFirebaseUser doneService \<noteq> None \<and> db doneService \<noteq> None"
    by (simp add: doneService_def)
  have a: "set (customerJobActions [doneJob, doneJob\<lparr> job_id := ''j2'', status := Pending \<rparr>])
     = {CancelAction ''j2''}"
    by (simp add: customerJobActions_def doneJob_def)
  have b: "set (workerJobActions [doneJob, doneJob\<lparr> job_id := ''j2'', status := Pending \<rparr>])
     = {AcceptAction ''j2''}"
    by (simp add: workerJobActions_def pendingWorkerJobs_def doneJob_def)
  show ?thesis
    using status_operations [of doneService "''j1''" Completed 9
        "[doneJob, doneJob\<lparr> job_id := ''j2'', status := Pending \<rparr>]" "''j3''" sinkWorker
        "''Plumber''" "''Leak''"] s u a b
    by simp
qed

section \<open>Classification\<close>

lemma detectLoop_first_max:
  "(detectLoop lower cs best = best \<and> (\<forall>c \<in> set cs. keywordScore lower c \<le> snd best)) \<or>
   (\<exists>i < length cs.
      detectLoop lower cs best = (cat_id (cs ! i), keywordScore lower (cs ! i)) \<and>
      snd best < keywordScore lower (cs ! i) \<and>
      (\<forall>j < length cs. keywordScore lower (cs ! j) \<le> keywordScore lower (cs ! i)) \<and>
      (\<forall>j < i. keywordScore lower (cs ! j) < keywordScore lower (cs ! i)))"
proof (induction cs arbitrary: best)
  case Nil
  then show ?case by simp
next
  case (Cons c cs)
  let ?sc = "keywordScore lower"
  let ?b = "if ?sc c > snd best then (cat_id c, ?sc c) else best"
  have step: "detectLoop lower (c # cs) best = detectLoop lower cs ?b"
    by (simp add: Let_def)
  have b_ge: "snd best \<le> snd ?b" and c_le: "?sc c \<le> snd ?b"
    by auto
  from Cons.IH [of ?b] show ?case
  proof (elim disjE conjE exE)
    assume same: "detectLoop lower cs ?b = ?b" and le: "\<forall>x \<in> set cs. ?sc x \<le> snd ?b"
    show ?thesis
    proof (cases "?sc c > snd best")
      case True
      have "\<forall>j < length (c # cs). ?sc ((c # cs) ! j) \<le> ?sc c"
        using le True by (auto simp: nth_Cons')
      then have "0 < length (c # cs) \<and>
          detectLoop lower (c # cs) best = (cat_id ((c # cs) ! 0), ?sc ((c # cs) ! 0)) \<and>
          snd best < ?sc ((c # cs) ! 0) \<and>
          (\<forall>j < length (c # cs). ?sc ((c # cs) ! j) \<le> ?sc ((c # cs) ! 0)) \<and>
          (\<forall>j < 0. ?sc ((c # cs) ! j) < ?sc ((c # cs) ! 0))"
        using True same step by simp
      then show ?thesis by blast
    next
      case False
      then show ?thesis using same le step by auto
    qed
  next
    fix i
    assume i: "i < length cs"
      and res: "detectLoop lower cs ?b = (cat_id (cs ! i), ?sc (cs ! i))"
      and gt: "snd ?b < ?sc (cs ! i)"
      and mx: "\<forall>j < length cs. ?sc (cs ! j) \<le> ?sc (cs ! i)"
      and fst: "\<forall>j < i. ?sc (cs ! j) < ?sc (cs ! i)"
    have c_lt: "?sc c < ?sc (cs ! i)"
      using c_le gt by linarith
    have "\<forall>j < length (c # cs). ?sc ((c # cs) ! j) \<le> ?sc (cs ! i)"
      using mx c_lt by (auto simp: nth_Cons')
    moreover have "\<forall>j < Suc i. ?sc ((c # cs) ! j) < ?sc (cs ! i)"
      using fst c_lt by (auto simp: nth_Cons' less_Suc_eq_0_disj)
    moreover have "snd best < ?sc (cs ! i)"
      using b_ge gt by linarith
    ultimately have "Suc i < length (c # cs) \<and>
        detectLoop lower (c # cs) best = (cat_id ((c # cs) ! Suc i), ?sc ((c # cs) ! Suc i)) \<and>
        snd best < ?sc ((c # cs) ! Suc i) \<and>
        (\<forall>j < length (c # cs). ?sc ((c # cs) ! j) \<le> ?sc ((c # cs) ! Suc i)) \<and>
        (\<forall>j < Suc i. ?sc ((c # cs) ! j) < ?sc ((c # cs) ! Suc i))"
      using i res step by simp
    then show ?thesis by blast
  qed
qed

lemma catalog_ids_distinct: "distinct (map cat_id CATEGORY_DEFS)"
  by (simp add: CATEGORY_DEFS_def)

text \<open>\<open>includesStr\<close> is containment as a contiguous run.\<close>

lemma startsWith_iff: "startsWith s kw \<longleftrightarrow> (\<exists>q. s = kw @ q)"
  by (induction s kw rule: startsWith.induct) auto

lemma includesStr_iff: "includesStr s kw \<longleftrightarrow> (\<exists>p q. s = p @ kw @ q)"
proof (induction s)
  case Nil
  then show ?case by simp
next
  case (Cons c cs)
  have "(\<exists>p q. c # cs = p @ kw @ q) \<longleftrightarrow> (\<exists>q. c # cs = kw @ q) \<or> (\<exists>p q. cs = p @ kw @ q)"
    by (auto simp: Cons_eq_append_conv)
  then show ?case
    using Cons.IH by (simp add: startsWith_iff del: startsWith.simps)
qed

text \<open>
  C4. \<open>detectCategory\<close> is a function of its text alone. On the empty text, and on
  every text in which no category has a keyword, it returns General. When some category
  has a keyword in the text, it returns the first category of the catalog, in the
  catalog's order, whose count is the highest: no category counts more and every earlier
  one counts strictly less. So of two categories that tie on a positive count, the later
  one is never returned.
\<close>

theorem detectCategory_first_max:
  "detectCategory [] = General \<and>
   ((\<forall>c \<in> set CATEGORY_DEFS. keywordScore (toLowerCase text) c = 0) \<longrightarrow>
      detectCategory text = General) \<and>
   ((\<exists>c \<in> set CATEGORY_DEFS. 0 < keywordScore (toLowerCase text) c) \<longrightarrow>
      (\<exists>i < length CATEGORY_DEFS.
         detectCategory text = cat_id (CATEGORY_DEFS ! i) \<and>
         (\<forall>j < length CATEGORY_DEFS.
            keywordScore (toLowerCase text) (CATEGORY_DEFS ! j)
              \<le> keywordScore (toLowerCase text) (CATEGORY_DEFS ! i)) \<and>
         (\<forall>j < i. keywordScore (toLowerCase text) (CATEGORY_DEFS ! j)
              < keywordScore (toLowerCase text) (CATEGORY_DEFS ! i)))) \<and>
   (\<forall>i j. i < j \<and> j < length CATEGORY_DEFS \<and>
      keywordScore (toLowerCase text) (CATEGORY_DEFS ! i)
        = keywordScore (toLowerCase text) (CATEGORY_DEFS ! j) \<and>
      0 < keywordScore (toLowerCase text) (CATEGORY_DEFS ! j) \<longrightarrow>
      detectCategory text \<noteq> cat_id (CATEGORY_DEFS ! j))"
proof (intro conjI impI allI)
  show "detectCategory [] = General"
    by code_simp
next
  assume z: "\<forall>c \<in> set CATEGORY_DEFS. keywordScore (toLowerCase text) c = 0"
  from detectLoop_first_max [of "toLowerCase text" CATEGORY_DEFS "(General, 0)"]
  have "detectLoop (toLowerCase text) CATEGORY_DEFS (General, 0) = (General, 0)"
    using z by auto
  then show "detectCategory text = General"
    by (simp add: detectCategory_def detectIn_def)
next
  let ?sc = "keywordScore (toLowerCase text)"
  assume "\<exists>c \<in> set CATEGORY_DEFS. 0 < ?sc c"
  then obtain c where c: "c \<in> set CATEGORY_DEFS" "0 < ?sc c"
    by blast
  from detectLoop_first_max [of "toLowerCase text" CATEGORY_DEFS "(General, 0)"] c
  obtain i where i: "i < length CATEGORY_DEFS"
    and res: "detectLoop (toLowerCase text) CATEGORY_DEFS (General, 0)
                = (cat_id (CATEGORY_DEFS ! i), ?sc (CATEGORY_DEFS ! i))"
    and pos: "0 < ?sc (CATEGORY_DEFS ! i)"
    and mx: "\<forall>j < length CATEGORY_DEFS. ?sc (CATEGORY_DEFS ! j) \<le> ?sc (CATEGORY_DEFS ! i)"
    and fst: "\<forall>j < i. ?sc (CATEGORY_DEFS ! j) < ?sc (CATEGORY_DEFS ! i)"
    by fastforce
  have "detectCategory text = cat_id (CATEGORY_DEFS ! i)"
    using res pos by (simp add: detectCategory_def detectIn_def)
  then show "\<exists>i < length CATEGORY_DEFS.
         detectCategory text = cat_id (CATEGORY_DEFS ! i) \<and>
         (\<forall>j < length CATEGORY_DEFS. ?sc (CATEGORY_DEFS ! j) \<le> ?sc (CATEGORY_DEFS ! i)) \<and>
         (\<forall>j < i. ?sc (CATEGORY_DEFS ! j) < ?sc (CATEGORY_DEFS ! i))"
    using i mx fst by blast
next
  let ?sc = "keywordScore (toLowerCase text)"
  fix i j
  assume a: "i < j \<and> j < length CATEGORY_DEFS \<and> ?sc (CATEGORY_DEFS ! i) = ?sc (CATEGORY_DEFS ! j) \<and>
      0 < ?sc (CATEGORY_DEFS ! j)"
  from detectLoop_first_max [of "toLowerCase text" CATEGORY_DEFS "(General, 0)"] a
  obtain k where k: "k < length CATEGORY_DEFS"
    and res: "detectLoop (toLowerCase text) CATEGORY_DEFS (General, 0)
                = (cat_id (CATEGORY_DEFS ! k), ?sc (CATEGORY_DEFS ! k))"
    and pos: "0 < ?sc (CATEGORY_DEFS ! k)"
    and fst: "\<forall>j < k. ?sc (CATEGORY_DEFS ! j) < ?sc (CATEGORY_DEFS ! k)"
    by fastforce
  have dk: "detectCategory text = cat_id (CATEGORY_DEFS ! k)"
    using res pos by (simp add: detectCategory_def detectIn_def)
  show "detectCategory text \<noteq> cat_id (CATEGORY_DEFS ! j)"
  proof
    assume "detectCategory text = cat_id (CATEGORY_DEFS ! j)"
    then have "map cat_id CATEGORY_DEFS ! k = map cat_id CATEGORY_DEFS ! j"
      using dk k a by simp
    moreover have "k < length (map cat_id CATEGORY_DEFS)" "j < length (map cat_id CATEGORY_DEFS)"
      using k a by simp_all
    ultimately have "k = j"
      using catalog_ids_distinct nth_eq_iff_index_eq by blast
    then show False
      using fst a by auto
  qed
qed

theorem detectCategory_first_max_witness:
  "map (keywordScore (toLowerCase ''Hello there'')) CATEGORY_DEFS = [0, 0, 0, 0, 0] \<and>
   detectCategory ''Hello there'' = General \<and>
   map (keywordScore (toLowerCase ''Sparks near the LEAK'')) CATEGORY_DEFS = [1, 1, 0, 0, 0] \<and>
   detectCategory ''Sparks near the LEAK'' \<noteq> cat_id (CATEGORY_DEFS ! 1) \<and>
   detectCategory ''Sparks near the LEAK'' = Plumber"
proof -
  have m0: "map (keywordScore (toLowerCase ''Hello there'')) CATEGORY_DEFS = [0, 0, 0, 0, 0]"
    by code_simp
  have z: "\<forall>c \<in> set CATEGORY_DEFS. keywordScore (toLowerCase ''Hello there'') c = 0"
    by code_simp
  have m1: "map (keywordScore (toLowerCase ''Sparks near the LEAK'')) CATEGORY_DEFS
      = [1, 1, 0, 0, 0]"
    by code_simp
  have l: "(0::nat) < 1 \<and> 1 < length CATEGORY_DEFS"
    by code_simp
  have s0: "keywordScore (toLowerCase ''Sparks near the LEAK'') (CATEGORY_DEFS ! 0) = 1"
    by code_simp
  have s1: "keywordScore (toLowerCase ''Sparks near the LEAK'') (CATEGORY_DEFS ! 1) = 1"
    by code_simp
  have d: "detectCategory ''Sparks near the LEAK'' = Plumber"
    by code_simp
  have g: "detectCategory ''Hello there'' = General"
    using detectCategory_first_max [of "''Hello there''"] z by blast
  have n: "detectCategory ''Sparks near the LEAK'' \<noteq> cat_id (CATEGORY_DEFS ! 1)"
    using detectCategory_first_max [of "''Sparks near the LEAK''"] l s0 s1 by simp
  show ?thesis
    using m0 m1 d g n by blast
qed

section \<open>Rounding\<close>

text \<open>
  What the ranking needs of the rounding: it is monotone and idempotent, it keeps the sign,
  and it leaves the integers below \<open>2 ^ 53\<close> as they are.
\<close>

lemma roundHalfEven_of_int: "roundHalfEven (of_int n) = n"
  by (simp add: roundHalfEven_def)

lemma roundHalfEven_range: "\<lfloor>x\<rfloor> \<le> roundHalfEven x \<and> roundHalfEven x \<le> \<lfloor>x\<rfloor> + 1"
  by (simp add: roundHalfEven_def Let_def)

lemma roundHalfEven_mono:
  assumes "x \<le> y"
  shows "roundHalfEven x \<le> roundHalfEven y"
proof (cases "\<lfloor>x\<rfloor> = \<lfloor>y\<rfloor>")
  case True
  then have "x - of_int \<lfloor>x\<rfloor> \<le> y - of_int \<lfloor>y\<rfloor>"
    using assms by simp
  then show ?thesis
    using True by (auto simp: roundHalfEven_def Let_def)
next
  case False
  then have "\<lfloor>x\<rfloor> < \<lfloor>y\<rfloor>"
    using assms floor_mono [of x y] by linarith
  then show ?thesis
    using roundHalfEven_range [of x] roundHalfEven_range [of y] by linarith
qed

lemma roundHalfEven_ge: "of_int n \<le> x \<Longrightarrow> n \<le> roundHalfEven x"
  using roundHalfEven_mono [of "of_int n" x] by (simp add: roundHalfEven_of_int)

lemma roundHalfEven_le: "x \<le> of_int n \<Longrightarrow> roundHalfEven x \<le> n"
  using roundHalfEven_mono [of x "of_int n"] by (simp add: roundHalfEven_of_int)

lemma binExponent_bounds:
  assumes "0 < q"
  shows "2 powi (binExponent q) \<le> q \<and> q < 2 powi (binExponent q + 1)"
proof (cases "1 \<le> q")
  case True
  define n where "n = \<lfloor>q\<rfloor>"
  have n: "0 < n" "of_int n \<le> q" "q < of_int n + 1"
    using True unfolding n_def by linarith+
  have b: "1 \<le> bitlen n"
    using n(1) by (simp add: bitlen_alt_def)
  from bitlen_bounds [OF n(1)]
  have lo: "(2::int) ^ nat (bitlen n - 1) \<le> n" and hi: "n < 2 ^ nat (bitlen n)"
    by auto
  have "(2::rat) powi (bitlen n - 1) = 2 ^ nat (bitlen n - 1)"
    using b by (simp add: power_int_nonneg_exp)
  also have "\<dots> = of_int (2 ^ nat (bitlen n - 1))"
    by simp
  also have "\<dots> \<le> of_int n"
    using lo of_int_le_iff by blast
  finally have 1: "(2::rat) powi (bitlen n - 1) \<le> q"
    using n(2) by linarith
  have "n + 1 \<le> 2 ^ nat (bitlen n)"
    using hi by linarith
  then have "(of_int (n + 1) :: rat) \<le> of_int (2 ^ nat (bitlen n))"
    using of_int_le_iff by blast
  then have "q < 2 ^ nat (bitlen n)"
    using n(3) by simp
  also have "(2::rat) ^ nat (bitlen n) = 2 powi (bitlen n)"
    using b by (simp add: power_int_nonneg_exp)
  finally have 2: "q < 2 powi (bitlen n - 1 + 1)"
    by simp
  show ?thesis
    using True 1 2 by (simp add: binExponent_def n_def)
next
  case False
  define m where "m = \<lceil>1 / q\<rceil>"
  have q1: "1 < 1 / q"
    using False assms by simp
  then have m2: "2 \<le> m"
    unfolding m_def by (simp add: le_ceiling_iff)
  have mq: "1 / q \<le> of_int m" "of_int m - 1 < 1 / q"
    unfolding m_def by linarith+
  define k where "k = bitlen (m - 1)"
  have m1: "0 < m - 1"
    using m2 by simp
  have k1: "1 \<le> k"
    using m1 by (simp add: k_def bitlen_alt_def)
  from bitlen_bounds [OF m1]
  have lo: "(2::int) ^ nat (k - 1) \<le> m - 1" and hi: "m - 1 < 2 ^ nat k"
    by (auto simp: k_def)
  have "m \<le> 2 ^ nat k"
    using hi by linarith
  then have "(of_int m :: rat) \<le> 2 ^ nat k"
    using of_int_le_iff [of m "2 ^ nat k", where ?'a = rat] by simp
  then have "1 / q \<le> 2 ^ nat k"
    using mq(1) by linarith
  then have "1 / q \<le> 2 powi k"
    using k1 by (simp add: power_int_nonneg_exp)
  then have "1 / (2 powi k) \<le> q"
    using assms by (simp add: field_simps)
  then have 1: "2 powi (- k) \<le> q"
    by (simp add: power_int_minus_divide)
  have "(2::rat) ^ nat (k - 1) \<le> of_int (m - 1)"
    using lo of_int_le_iff [of "2 ^ nat (k - 1)" "m - 1", where ?'a = rat] by simp
  then have "2 ^ nat (k - 1) < 1 / q"
    using mq(2) by simp
  then have "2 powi (k - 1) < 1 / q"
    using k1 by (simp add: power_int_nonneg_exp)
  then have "q < 1 / (2 powi (k - 1))"
    using assms by (simp add: field_simps)
  then have 2: "q < 2 powi (- k + 1)"
    using power_int_minus_divide [of "2::rat" "k - 1"] by simp
  show ?thesis
    using False 1 2 by (simp add: binExponent_def m_def k_def)
qed

lemma binExponent_mono:
  assumes "0 < x" and "x \<le> y"
  shows "binExponent x \<le> binExponent y"
proof (rule ccontr)
  assume "\<not> binExponent x \<le> binExponent y"
  then have "binExponent y + 1 \<le> binExponent x"
    by simp
  then have "(2::rat) powi (binExponent y + 1) \<le> 2 powi (binExponent x)"
    by (intro power_int_increasing) simp_all
  then show False
    using binExponent_bounds [of x] binExponent_bounds [of y] assms by linarith
qed


lemma binExponent_unique:
  assumes "0 < q" and "2 powi e \<le> q" and "q < 2 powi (e + 1)"
  shows "binExponent q = e"
proof (rule ccontr)
  assume ne: "binExponent q \<noteq> e"
  note b = binExponent_bounds [OF assms(1)]
  show False
  proof (cases "binExponent q < e")
    case True
    then have "(2::rat) powi (binExponent q + 1) \<le> 2 powi e"
      by (intro power_int_increasing) simp_all
    then show False using b assms by linarith
  next
    case False
    then have "(2::rat) powi (e + 1) \<le> 2 powi (binExponent q)"
      using ne by (intro power_int_increasing) simp_all
    then show False using b assms by linarith
  qed
qed

lemma toDouble_pos_eq:
  "0 < q \<Longrightarrow>
   toDouble q = of_int (roundHalfEven (q / 2 powi (binExponent q - 52))) * 2 powi (binExponent q - 52)"
  by (simp add: toDouble_def Let_def)

lemma ulp_mult:
  "(2::rat) ^ 52 * 2 powi (e - 52) = 2 powi e" "(2::rat) ^ 53 * 2 powi (e - 52) = 2 powi (e + 1)"
proof -
  have "(2::rat) powi 52 * 2 powi (e - 52) = 2 powi (52 + (e - 52))"
    by (subst power_int_add) simp_all
  then show "(2::rat) ^ 52 * 2 powi (e - 52) = 2 powi e"
    by simp
  have "(2::rat) powi 53 * 2 powi (e - 52) = 2 powi (53 + (e - 52))"
    by (subst power_int_add) simp_all
  then show "(2::rat) ^ 53 * 2 powi (e - 52) = 2 powi (e + 1)"
    by (simp add: add.commute)
qed

lemma ulp_mult_num:
  "4503599627370496 * 2 powi (e - 52) = (2::rat) powi e"
  "9007199254740992 * 2 powi (e - 52) = (2::rat) powi (e + 1)"
  using ulp_mult [of e] by simp_all

lemma significand_range:
  assumes "0 < q"
  shows "2 ^ 52 \<le> roundHalfEven (q / 2 powi (binExponent q - 52)) \<and>
         roundHalfEven (q / 2 powi (binExponent q - 52)) \<le> 2 ^ 53"
proof -
  let ?u = "(2::rat) powi (binExponent q - 52)"
  have u: "0 < ?u" by simp
  note b = binExponent_bounds [OF assms]
  have "2 ^ 52 * ?u \<le> q" "q \<le> 2 ^ 53 * ?u"
    using b by (simp_all add: ulp_mult_num)
  then have "of_int (2 ^ 52) \<le> q / ?u" "q / ?u \<le> of_int (2 ^ 53)"
    using u by (simp_all add: pos_le_divide_eq pos_divide_le_eq)
  then show ?thesis
    using roundHalfEven_ge roundHalfEven_le by blast
qed

lemma toDouble_bounds:
  assumes "0 < q"
  shows "2 powi (binExponent q) \<le> toDouble q \<and> toDouble q \<le> 2 powi (binExponent q + 1)"
proof -
  let ?u = "(2::rat) powi (binExponent q - 52)"
  let ?N = "roundHalfEven (q / ?u)"
  have u: "0 < ?u" by simp
  have "(of_int (2 ^ 52) :: rat) \<le> of_int ?N" "(of_int ?N :: rat) \<le> of_int (2 ^ 53)"
    using significand_range [OF assms] of_int_le_iff by blast+
  then have "2 ^ 52 * ?u \<le> of_int ?N * ?u" "of_int ?N * ?u \<le> 2 ^ 53 * ?u"
    using u by simp_all
  then show ?thesis
    using assms by (simp add: toDouble_pos_eq ulp_mult_num)
qed

lemma toDouble_pos: "0 < q \<Longrightarrow> 0 < toDouble q"
  using toDouble_bounds [of q] zero_less_power_int [of "2::rat" "binExponent q"] by linarith

lemma toDouble_minus: "toDouble (- q) = - toDouble q"
  by (simp add: toDouble_def Let_def)

lemma toDouble_zero: "toDouble 0 = 0"
  by (simp add: toDouble_def)

lemma toDouble_neg: "q < 0 \<Longrightarrow> toDouble q < 0"
  using toDouble_pos [of "- q"] by (simp add: toDouble_minus)

lemma toDouble_le_0_iff: "toDouble q \<le> 0 \<longleftrightarrow> q \<le> 0"
proof -
  consider "0 < q" | "q = 0" | "q < 0" by linarith
  then show ?thesis
  proof cases
    case 1
    then show ?thesis using toDouble_pos [of q] by simp
  next
    case 2
    then show ?thesis by (simp add: toDouble_zero)
  next
    case 3
    then show ?thesis using toDouble_neg [of q] by simp
  qed
qed

lemma toDouble_mono_pos:
  assumes "0 < x" and "x \<le> y"
  shows "toDouble x \<le> toDouble y"
proof (cases "binExponent x = binExponent y")
  case True
  let ?u = "(2::rat) powi (binExponent y - 52)"
  have u: "0 < ?u" by simp
  have "x / ?u \<le> y / ?u"
    using assms u by (simp add: divide_right_mono)
  then have "roundHalfEven (x / ?u) \<le> roundHalfEven (y / ?u)"
    by (rule roundHalfEven_mono)
  then have "(of_int (roundHalfEven (x / ?u)) :: rat) * ?u \<le> of_int (roundHalfEven (y / ?u)) * ?u"
    using u by simp
  then show ?thesis
    using assms True by (simp add: toDouble_pos_eq)
next
  case False
  then have "binExponent x + 1 \<le> binExponent y"
    using binExponent_mono [OF assms] by linarith
  then have "(2::rat) powi (binExponent x + 1) \<le> 2 powi (binExponent y)"
    by (intro power_int_increasing) simp_all
  then show ?thesis
    using toDouble_bounds [of x] toDouble_bounds [of y] assms by linarith
qed

lemma toDouble_mono:
  assumes "x \<le> y"
  shows "toDouble x \<le> toDouble y"
proof -
  consider "0 < x" | "x \<le> 0" "0 < y" | "x \<le> 0" "y = 0" | "y < 0"
    using assms by linarith
  then show ?thesis
  proof cases
    case 1
    then show ?thesis using assms by (rule toDouble_mono_pos)
  next
    case 2
    then show ?thesis
      using toDouble_le_0_iff [of x] toDouble_pos [of y] by linarith
  next
    case 3
    then show ?thesis
      using toDouble_le_0_iff [of x] by (simp add: toDouble_zero)
  next
    case 4
    then have "toDouble (- y) \<le> toDouble (- x)"
      using assms by (intro toDouble_mono_pos) simp_all
    then show ?thesis by (simp add: toDouble_minus)
  qed
qed

lemma toDouble_of_int:
  assumes "0 < n" and "n < 2 ^ 53"
  shows "toDouble (of_int n) = of_int n"
proof -
  let ?q = "of_int n :: rat"
  let ?e = "binExponent ?q"
  have q: "0 < ?q" using assms by simp
  note b = binExponent_bounds [OF q]
  have "?q < 2 powi 53"
    using assms(2) of_int_less_iff [of n "2 ^ 53", where ?'a = rat] by simp
  then have "(2::rat) powi ?e < 2 powi 53"
    using b by linarith
  then have e: "?e \<le> 52"
    using power_int_increasing [of 53 ?e "2::rat"] by (cases "?e \<le> 52") auto
  have "?q / 2 powi (?e - 52) = ?q * 2 powi (52 - ?e)"
    using power_int_minus_divide [of "2::rat" "?e - 52"] by simp
  also have "\<dots> = of_int (n * 2 ^ nat (52 - ?e))"
    using e by (simp add: power_int_nonneg_exp)
  finally have s: "?q / 2 powi (?e - 52) = of_int (n * 2 ^ nat (52 - ?e))" .
  have "toDouble ?q = of_int (n * 2 ^ nat (52 - ?e)) * 2 powi (?e - 52)"
    using q by (simp only: toDouble_pos_eq s roundHalfEven_of_int)
  also have "\<dots> = ?q * (2 powi (52 - ?e) * 2 powi (?e - 52))"
    using e by (simp add: power_int_nonneg_exp)
  also have "2 powi (52 - ?e) * 2 powi (?e - 52) = (2::rat) powi ((52 - ?e) + (?e - 52))"
    by (subst power_int_add) simp_all
  finally show ?thesis by simp
qed

lemma toDouble_of_nat: "n < 2 ^ 53 \<Longrightarrow> toDouble (of_nat n) = of_nat n"
proof (cases "n = 0")
  case True
  then show ?thesis by (simp add: toDouble_zero)
next
  case False
  assume "n < 2 ^ 53"
  then have "int n < 2 ^ 53"
    using of_nat_less_iff [of n "2 ^ 53", where ?'a = int] by simp
  then show ?thesis
    using False toDouble_of_int [of "int n"] by simp
qed

lemma toDouble_idem: "toDouble (toDouble q) = toDouble q"
proof -
  have pos: "toDouble (toDouble q) = toDouble q" if q: "0 < q" for q
  proof -
    let ?e = "binExponent q"
    let ?u = "(2::rat) powi (?e - 52)"
    let ?N = "roundHalfEven (q / ?u)"
    have u: "0 < ?u" by simp
    have d: "toDouble q = of_int ?N * ?u"
      using q by (rule toDouble_pos_eq)
    have dpos: "0 < toDouble q"
      using q by (rule toDouble_pos)
    note r = significand_range [OF q]
    note tb = toDouble_bounds [OF q]
    show ?thesis
    proof (cases "?N = 2 ^ 53")
      case True
      then have d2: "toDouble q = 2 powi (?e + 1)"
        using d by (simp add: ulp_mult_num)
      have "(2::rat) powi (?e + 1) < 2 powi (?e + 1 + 1)"
        by (intro power_int_strict_increasing) simp_all
      then have be: "binExponent (toDouble q) = ?e + 1"
        using d2 dpos by (intro binExponent_unique) simp_all
      have "toDouble q / 2 powi (?e + 1 - 52) = of_int (2 ^ 52)"
        using ulp_mult(1) [of "?e + 1"] d2 by (simp add: field_simps)
      then have "toDouble (toDouble q) = of_int (2 ^ 52) * 2 powi (?e + 1 - 52)"
        using dpos by (simp only: toDouble_pos_eq be roundHalfEven_of_int)
      then show ?thesis
        using ulp_mult(1) [of "?e + 1"] d2 by simp
    next
      case False
      then have "?N + 1 \<le> 2 ^ 53"
        using r by linarith
      then have "(of_int (?N + 1) :: rat) \<le> of_int (2 ^ 53)"
        using of_int_le_iff by blast
      then have "(of_int ?N :: rat) < 2 ^ 53"
        by simp
      then have "of_int ?N * ?u < 2 ^ 53 * ?u"
        using u by simp
      then have "toDouble q < 2 powi (?e + 1)"
        using d by (simp add: ulp_mult_num)
      then have be: "binExponent (toDouble q) = ?e"
        using tb dpos by (intro binExponent_unique) simp_all
      have "toDouble q / ?u = of_int ?N"
        using d u by simp
      then have "toDouble (toDouble q) = of_int ?N * ?u"
        using dpos by (simp only: toDouble_pos_eq be roundHalfEven_of_int)
      then show ?thesis
        using d by simp
    qed
  qed
  consider "0 < q" | "q = 0" | "q < 0" by linarith
  then show ?thesis
  proof cases
    case 1
    then show ?thesis by (rule pos)
  next
    case 2
    then show ?thesis by (simp add: toDouble_zero)
  next
    case 3
    then have "toDouble (toDouble (- q)) = toDouble (- q)"
      by (intro pos) simp
    then show ?thesis by (simp add: toDouble_minus)
  qed
qed

lemma toDouble_add2_gt:
  assumes "0 \<le> x" and "x < 2 ^ 52"
  shows "toDouble x < toDouble (x + 2)"
proof -
  define n where "n = \<lfloor>x\<rfloor> + 1"
  have n: "0 < n" "x < of_int n" "of_int n \<le> x + 1"
    using assms(1) unfolding n_def by linarith+
  have "\<lfloor>x\<rfloor> < 2 ^ 52"
    using assms(2) by (simp add: floor_less_iff)
  then have n53: "n + 1 < 2 ^ 53"
    unfolding n_def by simp
  have "toDouble x \<le> toDouble (of_int n)"
    using n by (intro toDouble_mono) simp
  also have "\<dots> = of_int n"
    using n n53 by (intro toDouble_of_int) simp_all
  also have "\<dots> < of_int (n + 1)"
    by simp
  also have "\<dots> = toDouble (of_int (n + 1))"
    using n n53 by (intro toDouble_of_int [symmetric]) simp_all
  also have "\<dots> \<le> toDouble (x + 2)"
    using n by (intro toDouble_mono) simp
  finally show ?thesis .
qed

section \<open>Sorting and ranking\<close>

lemma length_insertBy: "length (insertBy cmp x ys) = Suc (length ys)"
  by (induction ys) simp_all

lemma length_sortBy: "length (sortBy cmp xs) = length xs"
  by (induction xs) (simp_all add: sortBy_def length_insertBy)

lemma set_insertBy: "set (insertBy cmp x ys) = insert x (set ys)"
  by (induction ys) auto

lemma set_sortBy: "set (sortBy cmp xs) = set xs"
  by (induction xs) (simp_all add: sortBy_def set_insertBy)

text \<open>The comparator of the ranking puts \<open>a\<close> no later than \<open>b\<close> exactly when \<open>a\<close> scores no less.\<close>

lemma scoreCmp_le_0: "fsub (snd b) (snd a) \<le> 0 \<longleftrightarrow> snd b \<le> snd a"
  by (simp add: fsub_def toDouble_le_0_iff)

lemma sorted_insertBy:
  "sorted_wrt (\<lambda>a b. snd b \<le> (snd a :: rat)) ys \<Longrightarrow>
   sorted_wrt (\<lambda>a b. snd b \<le> snd a) (insertBy (\<lambda>a b. fsub (snd b) (snd a)) x ys)"
proof (induction ys)
  case Nil
  then show ?case by simp
next
  case (Cons y ys)
  show ?case
  proof (cases "snd y \<le> snd x")
    case True
    then have "\<forall>z \<in> set (y # ys). snd z \<le> snd x"
      using Cons.prems by auto
    then show ?thesis
      using True Cons.prems by (simp add: scoreCmp_le_0)
  next
    case False
    then have "snd x \<le> snd y" by simp
    then show ?thesis
      using False Cons by (auto simp: scoreCmp_le_0 set_insertBy)
  qed
qed

lemma sorted_sortBy:
  "sorted_wrt (\<lambda>a b. snd b \<le> (snd a :: rat)) (sortBy (\<lambda>a b. fsub (snd b) (snd a)) ps)"
  by (induction ps) (simp_all add: sortBy_def sorted_insertBy)

text \<open>Stability: elements that the comparator ties stay in their order.\<close>

lemma filter_insertBy:
  "sorted_wrt (\<lambda>a b. snd b \<le> (snd a :: rat)) ys \<Longrightarrow>
   filter (\<lambda>p. snd p = k) (insertBy (\<lambda>a b. fsub (snd b) (snd a)) x ys)
     = (if snd x = k then x # filter (\<lambda>p. snd p = k) ys else filter (\<lambda>p. snd p = k) ys)"
proof (induction ys)
  case Nil
  then show ?case by simp
next
  case (Cons y ys)
  show ?case
  proof (cases "snd y \<le> snd x")
    case True
    then show ?thesis by (simp add: scoreCmp_le_0)
  next
    case False
    then have "snd y \<noteq> k \<or> snd x \<noteq> k" by auto
    then show ?thesis
      using False Cons by (auto simp: scoreCmp_le_0)
  qed
qed

lemma sortBy_stable:
  "filter (\<lambda>p. snd p = k) (sortBy (\<lambda>a b. fsub (snd b) (snd a)) ps) = filter (\<lambda>p. snd p = (k::rat)) ps"
  by (induction ps) (simp_all add: sortBy_def filter_insertBy sorted_sortBy [unfolded sortBy_def])

lemma sorted_snd_fst:
  fixes L :: "('w \<times> rat) list"
  assumes "\<forall>p \<in> set L. snd p = score (fst p)" and "sorted_wrt (\<lambda>a b. snd b \<le> snd a) L"
  shows "sorted_wrt (\<lambda>a b. score (fst b) \<le> score (fst a)) L"
  using assms(2)
proof (rule sorted_wrt_mono_rel [rotated])
  fix a b
  assume "a \<in> set L" and "b \<in> set L" and "snd b \<le> snd a"
  then show "score (fst b) \<le> score (fst a)"
    using assms(1) by simp
qed

lemma rankWith_sorted:
  "sorted_wrt (\<lambda>a b. score b \<le> score a) (rankWith score ws)"
proof -
  define L where "L = sortBy (\<lambda>a b. fsub (snd b) (snd a)) (map (\<lambda>w. (w, score w)) ws)"
  have inv: "\<forall>p \<in> set L. snd p = score (fst p)"
    by (auto simp: L_def set_sortBy)
  have "sorted_wrt (\<lambda>a b. snd b \<le> snd a) L"
    unfolding L_def by (rule sorted_sortBy)
  with inv have "sorted_wrt (\<lambda>a b. score (fst b) \<le> score (fst a)) L"
    by (rule sorted_snd_fst)
  then have "sorted_wrt (\<lambda>a b. score (fst b) \<le> score (fst a)) (take 3 L)"
    by (rule sorted_wrt_take)
  then have "sorted_wrt (\<lambda>a b. score b \<le> score a) (map fst (take 3 L))"
    by (simp add: sorted_wrt_map)
  then show ?thesis
    by (simp add: rankWith_def L_def)
qed

lemma rankWith_length: "length (rankWith score ws) = min 3 (length ws)"
  by (simp add: rankWith_def length_sortBy min.commute)

lemma rankWith_subset: "set (rankWith score ws) \<subseteq> set ws"
proof -
  let ?L = "sortBy (\<lambda>a b. fsub (snd b) (snd a)) (map (\<lambda>w. (w, score w)) ws)"
  have "set (take 3 ?L) \<subseteq> set ?L"
    by (rule set_take_subset)
  then have "fst ` set (take 3 ?L) \<subseteq> fst ` set (map (\<lambda>w. (w, score w)) ws)"
    by (simp add: set_sortBy image_mono)
  then show ?thesis
    by (auto simp: rankWith_def)
qed

text \<open>Whoever scores more than a ranked worker is ranked too, and earlier.\<close>

lemma rankWith_better_in:
  assumes "x \<in> set (rankWith score ws)" and "y \<in> set ws" and "score x < score y"
  shows "y \<in> set (rankWith score ws)"
proof -
  let ?L = "sortBy (\<lambda>a b. fsub (snd b) (snd a)) (map (\<lambda>w. (w, score w)) ws)"
  have srt: "sorted_wrt (\<lambda>a b. snd b \<le> snd a) ?L"
    by (rule sorted_sortBy)
  have "(y, score y) \<in> set ?L"
    using assms(2) by (simp add: set_sortBy)
  then obtain j where j: "j < length ?L" "?L ! j = (y, score y)"
    by (auto simp: in_set_conv_nth)
  have "x \<in> fst ` set (take 3 ?L)"
    using assms(1) by (simp add: rankWith_def)
  then obtain p where p: "p \<in> set (take 3 ?L)" "fst p = x"
    by auto
  then obtain i where i: "i < length (take 3 ?L)" "take 3 ?L ! i = p"
    by (auto simp: in_set_conv_nth)
  then have i3: "i < 3" "i < length ?L" "?L ! i = p"
    by simp_all
  have "p \<in> set ?L"
    using p(1) by (rule in_set_takeD)
  then have sp: "snd p = score x"
    using p(2) by (auto simp: set_sortBy)
  have "j < 3"
  proof (rule ccontr)
    assume "\<not> j < 3"
    then have "i < j" using i3 by simp
    then have "snd (?L ! j) \<le> snd (?L ! i)"
      using srt j(1) by (simp add: sorted_wrt_iff_nth_less)
    then show False
      using j(2) i3(3) sp assms(3) by simp
  qed
  then have "take 3 ?L ! j = (y, score y)" "j < length (take 3 ?L)"
    using j by simp_all
  then have "(y, score y) \<in> set (take 3 ?L)"
    by (metis nth_mem)
  then show ?thesis
    by (force simp: rankWith_def)
qed

lemma rankWith_order:
  assumes "i < j" and "j < length (rankWith score ws)"
  shows "score (rankWith score ws ! j) \<le> score (rankWith score ws ! i)"
  using rankWith_sorted [of score ws] assms by (simp add: sorted_wrt_iff_nth_less)

lemma fsub_le_0_iff: "fsub x y \<le> 0 \<longleftrightarrow> x \<le> y"
  by (simp add: fsub_def toDouble_le_0_iff)

lemma rankWith_two:
  "score a < score b \<Longrightarrow> rankWith score [a, b] = [b, a]"
  "score b < score a \<Longrightarrow> rankWith score [a, b] = [a, b]"
  by (simp_all add: rankWith_def sortBy_def fsub_le_0_iff)

section \<open>The ranker\<close>

lemma rankWorkers_eq:
  "CATEGORY_BY_ID (category s) = Some cd \<Longrightarrow>
   rankWorkers ws s = Inr (rankWith (scoreWorker (rankKeywords cd s) (category s)) ws)"
  by (simp add: rankWorkers_def)

text \<open>
  C5. \<open>rankWorkers\<close> never fails. Its result has \<open>min 3 n\<close> workers for a roster of
  \<open>n\<close>, so at most 3 and at most \<open>n\<close>; they are workers of the roster, in
  non-increasing order of score; and the empty roster gives the empty result. The source
  sorts a copy of the roster (\<open>[...workers]\<close>), so the roster is only read: the model
  takes it as a value and returns the ranked list alone.
\<close>

theorem rankWorkers_top3:
  "\<exists>cd rk. CATEGORY_BY_ID (category s) = Some cd \<and> rankWorkers ws s = Inr rk \<and>
     length rk = min 3 (length ws) \<and> length rk \<le> 3 \<and> length rk \<le> length ws \<and>
     sorted_wrt (\<lambda>a b. scoreWorker (rankKeywords cd s) (category s) b
                       \<le> scoreWorker (rankKeywords cd s) (category s) a) rk \<and>
     set rk \<subseteq> set ws \<and>
     rankWorkers [] s = Inr []"
proof -
  obtain cd where cd: "CATEGORY_BY_ID (category s) = Some cd"
    using CATEGORY_BY_ID_total by blast
  let ?sc = "scoreWorker (rankKeywords cd s) (category s)"
  have "rankWorkers ws s = Inr (rankWith ?sc ws)" "rankWorkers [] s = Inr (rankWith ?sc [])"
    using cd by (simp_all add: rankWorkers_eq)
  moreover have "rankWith ?sc [] = []"
    using rankWith_length [of ?sc "[]"] by simp
  moreover have "length (rankWith ?sc ws) = min 3 (length ws)"
    by (rule rankWith_length)
  moreover have "sorted_wrt (\<lambda>a b. ?sc b \<le> ?sc a) (rankWith ?sc ws)"
    by (rule rankWith_sorted)
  moreover have "set (rankWith ?sc ws) \<subseteq> set ws"
    by (rule rankWith_subset)
  ultimately show ?thesis
    using cd by (intro exI [of _ cd] exI [of _ "rankWith ?sc ws"]) simp
qed

section \<open>The score\<close>

text \<open>The scan of \<open>splitNonWord\<close> yields the pieces.\<close>

lemma splitGo_in_separators:
  "splitGo True [] s = splitGo False [] (dropWhile (\<lambda>x. \<not> isWordChar x) s)"
  by (induction s) simp_all

lemma splitGo_in_word:
  "splitGo False cur s =
     (cur @ takeWhile isWordChar s) #
     (case dropWhile isWordChar s of [] \<Rightarrow> [] | c # r \<Rightarrow> splitGo True [] r)"
  by (induction s arbitrary: cur) simp_all

lemma splitNonWord_specPieces: "splitNonWord s = specPieces s"
  unfolding splitNonWord_def
proof (induction s rule: specPieces.induct)
  case (1 s)
  have L: "splitGo False [] s =
      takeWhile isWordChar s #
      (case dropWhile isWordChar s of [] \<Rightarrow> [] | c # r \<Rightarrow> splitGo True [] r)"
    using splitGo_in_word [of "[]" s] by simp
  have R: "specPieces s =
      takeWhile isWordChar s #
      (case dropWhile isWordChar s of
         [] \<Rightarrow> []
       | c # r \<Rightarrow> specPieces (dropWhile (\<lambda>x. \<not> isWordChar x) r))"
    by (rule specPieces.simps)
  show ?case
  proof (cases "dropWhile isWordChar s")
    case Nil
    show ?thesis
      by (simp only: L R Nil list.case)
  next
    case (Cons c r)
    have "splitGo False [] (dropWhile (\<lambda>x. \<not> isWordChar x) r)
        = specPieces (dropWhile (\<lambda>x. \<not> isWordChar x) r)"
      using Cons by (rule "1.IH")
    then have "splitGo True [] r = specPieces (dropWhile (\<lambda>x. \<not> isWordChar x) r)"
      by (simp only: splitGo_in_separators [of r])
    then show ?thesis
      by (simp only: L R Cons list.case)
  qed
qed

lemma skillMatch_count:
  "skillMatch kws w = length (filter (\<lambda>sk. toLowerCase sk \<in> set kws) (skills w))"
proof -
  have "fold (\<lambda>sk acc. acc + (if toLowerCase sk \<in> set kws then 1 else 0)) xs a
      = a + length (filter (\<lambda>sk. toLowerCase sk \<in> set kws) xs)" for xs and a :: nat
    by (induction xs arbitrary: a) simp_all
  then show ?thesis
    by (simp add: skillMatch_def)
qed

lemma set_rankKeywords: "set (rankKeywords cd s) = specKeywordSet cd (answers s)"
proof -
  have "set (answerTokens v) =
      (case v of StrAns t \<Rightarrow> set (specPieces (toLowerCase t)) | BoolAns b \<Rightarrow> {})" for v
    by (cases v) (simp_all add: answerTokens_def splitNonWord_specPieces)
  then show ?thesis
    by (simp add: rankKeywords_def specKeywordSet_def case_prod_unfold)
qed

lemma skillMatch_specSkillMatch:
  "skillMatch (rankKeywords cd s) w = specSkillMatch (specKeywordSet cd (answers s)) w"
  by (simp add: skillMatch_count set_rankKeywords specSkillMatch_def)

lemma scoreWorker_specScore:
  "scoreWorker (rankKeywords cd s) c w = specScore cd c (answers s) w"
  by (simp add: scoreWorker_def specScore_def skillMatch_count set_rankKeywords specSkillMatch_def
      specSpecialtyBoost_def specAvailabilityBonus_def ratingWeight_def Let_def)

text \<open>
  C1. The score by which \<open>rankWorkers\<close> ranks a worker is
  \<open>skillMatch * 3 + specialtyBoost + rating * 1.2 + availabilityBonus\<close>, evaluated from
  left to right in the program's numbers: \<open>skillMatch\<close> counts the worker's skills
  whose lower-case form is in the combined keyword set, which holds the keywords of the
  category and the pieces of every string answer, lower-cased and then split at its
  non-word characters, and nothing of a boolean answer; \<open>specialtyBoost\<close> is 2 when
  the worker's specialty is the category and 0 otherwise, and \<open>availabilityBonus\<close> is 2
  when the worker is available and 0 otherwise.
\<close>

theorem score_formula:
  "\<exists>cd. CATEGORY_BY_ID (category s) = Some cd \<and> cat_id cd = category s \<and>
         rankWorkers ws s = Inr (rankWith (specScore cd (category s) (answers s)) ws) \<and>
         scoreWorker (rankKeywords cd s) (category s) w = specScore cd (category s) (answers s) w"
proof -
  obtain cd where cd: "CATEGORY_BY_ID (category s) = Some cd" "cat_id cd = category s"
    using CATEGORY_BY_ID_total by blast
  have "scoreWorker (rankKeywords cd s) (category s) = specScore cd (category s) (answers s)"
    by (rule ext) (rule scoreWorker_specScore)
  then show ?thesis
    using cd by (simp add: rankWorkers_def)
qed


text \<open>
  In the session of the leaking sink the answer \<open>Kitchen\<close> gives the piece
  \<open>kitchen\<close>, which the skill \<open>Kitchen\<close> meets; the skill \<open>LEAK\<close> meets a keyword
  of the category; the boolean answer gives no piece, so the skill \<open>true\<close> meets
  nothing. The count is 2, and the score is the double 15.76.
\<close>

lemma kitchen_code_side:
  "CATEGORY_BY_ID (category (state sinkLast)) = Some (CATEGORY_DEFS ! 0)"
  "category (state sinkLast) = Plumber"
  "answerTokens (StrAns ''Kitchen'') = [''kitchen'']"
  "answerTokens (StrAns ''1-3 years'') = [''1'', ''3'', ''years'']"
  "answerTokens (BoolAns True) = []"
  "skillMatch (rankKeywords (CATEGORY_DEFS ! 0) (state sinkLast)) kitchenWorker = 2"
  "scoreWorker (rankKeywords (CATEGORY_DEFS ! 0) (state sinkLast)) Plumber kitchenWorker
     = 8872091265919877 / 562949953421312"
  "''kitchen'' \<in> set (rankKeywords (CATEGORY_DEFS ! 0) (state sinkLast))"
  "''leak'' \<in> set (rankKeywords (CATEGORY_DEFS ! 0) (state sinkLast))"
  "''true'' \<notin> set (rankKeywords (CATEGORY_DEFS ! 0) (state sinkLast))"
  by code_simp+

theorem score_formula_witness:
  "specPieces (toLowerCase ''Kitchen'') = [''kitchen''] \<and>
   specPieces (toLowerCase ''1-3 years'') = [''1'', ''3'', ''years''] \<and>
   ''kitchen'' \<in> specKeywordSet (CATEGORY_DEFS ! 0) (answers (state sinkLast)) \<and>
   ''leak'' \<in> specKeywordSet (CATEGORY_DEFS ! 0) (answers (state sinkLast)) \<and>
   ''true'' \<notin> specKeywordSet (CATEGORY_DEFS ! 0) (answers (state sinkLast)) \<and>
   specSkillMatch (specKeywordSet (CATEGORY_DEFS ! 0) (answers (state sinkLast))) kitchenWorker = 2 \<and>
   specScore (CATEGORY_DEFS ! 0) Plumber (answers (state sinkLast)) kitchenWorker
     = 8872091265919877 / 562949953421312 \<and>
   scoreWorker (rankKeywords (CATEGORY_DEFS ! 0) (state sinkLast)) Plumber kitchenWorker
     = 8872091265919877 / 562949953421312"
proof -
  from score_formula [of "state sinkLast" "[]" kitchenWorker]
  obtain cd where cd: "CATEGORY_BY_ID (category (state sinkLast)) = Some cd"
    and eq: "scoreWorker (rankKeywords cd (state sinkLast)) (category (state sinkLast))
               kitchenWorker
             = specScore cd (category (state sinkLast)) (answers (state sinkLast)) kitchenWorker"
    by blast
  have "cd = CATEGORY_DEFS ! 0"
    using cd kitchen_code_side(1) by simp
  then have "scoreWorker (rankKeywords (CATEGORY_DEFS ! 0) (state sinkLast)) Plumber kitchenWorker
      = specScore (CATEGORY_DEFS ! 0) Plumber (answers (state sinkLast)) kitchenWorker"
    using eq kitchen_code_side(2) by simp
  moreover have "specPieces (toLowerCase ''Kitchen'') = [''kitchen'']"
    "specPieces (toLowerCase ''1-3 years'') = [''1'', ''3'', ''years'']"
    using kitchen_code_side(3,4) by (simp_all add: answerTokens_def splitNonWord_specPieces)
  ultimately show ?thesis
    using kitchen_code_side(6-10)
    by (simp add: skillMatch_specSkillMatch set_rankKeywords)
qed

section \<open>Availability\<close>

lemma skillMatch_le: "skillMatch kws w \<le> length (skills w)"
  by (simp add: skillMatch_count)

lemma scoreWorker_base:
  "scoreWorker kws cat w = fadd (baseScore kws cat w) (if available w then 2 else 0)"
  by (simp add: scoreWorker_def baseScore_def Let_def)

lemma ratingWeight_value: "ratingWeight = 5404319552844595 / 4503599627370496"
  by code_simp

lemma skill_part_exact:
  assumes "length (skills w) < 2 ^ 32"
  shows "fadd (fmul (of_nat (skillMatch kws w)) 3) (if specialty w = catName cat then 2 else 0)
         = of_nat (skillMatch kws w * 3 + (if specialty w = catName cat then 2 else 0))"
proof -
  let ?k = "skillMatch kws w"
  let ?b = "if specialty w = catName cat then 2 else 0 :: nat"
  have k: "?k < 2 ^ 32"
    using skillMatch_le [of kws w] assms by linarith
  then have "?k * 3 < 2 ^ 53" "?k * 3 + 2 < 2 ^ 53"
    by simp_all
  then have "toDouble (of_nat (?k * 3)) = of_nat (?k * 3)"
    and "toDouble (of_nat (?k * 3 + 2)) = of_nat (?k * 3 + 2)"
    by (simp_all only: toDouble_of_nat)
  then have e: "toDouble (of_nat ?k * 3) = of_nat ?k * 3"
    "toDouble (of_nat ?k * 3 + 2) = of_nat ?k * 3 + 2"
    by (simp_all add: add.commute)
  show ?thesis
    by (cases "specialty w = catName cat") (simp_all add: fadd_def fmul_def e)
qed

lemma baseScore_range:
  assumes "length (skills w) < 2 ^ 32" and "0 \<le> rating w" and "rating w \<le> 5"
  shows "0 \<le> baseScore kws cat w \<and> baseScore kws cat w < 2 ^ 52"
proof -
  let ?n = "skillMatch kws w * 3 + (if specialty w = catName cat then 2 else 0)"
  let ?t = "fmul (rating w) ratingWeight"
  have n: "?n < 2 ^ 34"
    using skillMatch_le [of kws w] assms(1) by simp
  have "0 \<le> rating w * ratingWeight" "rating w * ratingWeight \<le> 7"
    using assms(2,3) by (simp_all add: ratingWeight_value)
  then have "toDouble 0 \<le> ?t" "?t \<le> toDouble (of_int 7)"
    unfolding fmul_def by (simp_all add: toDouble_mono)
  then have t: "0 \<le> ?t" "?t \<le> 7"
    using toDouble_of_int [of 7] by (simp_all add: toDouble_zero)
  have b: "baseScore kws cat w = toDouble (of_nat ?n + ?t)"
    using skill_part_exact [OF assms(1), of kws cat] by (simp add: baseScore_def fadd_def)
  have "toDouble 0 \<le> toDouble (of_nat ?n + ?t)"
    using t by (intro toDouble_mono) simp
  moreover have "toDouble (of_nat ?n + ?t) \<le> toDouble (of_nat (?n + 7))"
    using t by (intro toDouble_mono) simp
  moreover have "toDouble (of_nat (?n + 7)) = of_nat (?n + 7)"
    using n by (intro toDouble_of_nat) simp
  moreover have "(of_nat (?n + 7) :: rat) < 2 ^ 52"
    using n of_nat_less_iff [of "?n + 7" "2 ^ 52", where ?'a = rat] by simp
  ultimately show ?thesis
    using b by (simp add: toDouble_zero)
qed

lemma baseScore_double: "toDouble (baseScore kws cat w) = baseScore kws cat w"
  by (simp add: baseScore_def fadd_def toDouble_idem)


text \<open>The scores of the two sample workers, evaluated once.\<close>

lemma idle_scores:
  "scoreWorker (rankKeywords (CATEGORY_DEFS ! 0) idleState) Plumber (idleWorker True)
     = 2476979795053773 / 562949953421312"
  "scoreWorker (rankKeywords (CATEGORY_DEFS ! 0) idleState) Plumber (idleWorker False)
     = 5404319552844595 / 2251799813685248"
  by code_simp+

lemma idle_category: "CATEGORY_BY_ID (category idleState) = Some (CATEGORY_DEFS ! 0)"
  by code_simp

text \<open>
  C9, as the code has it. Let two workers agree in skills, specialty and rating, one
  available and the other not, with a rating from 0 to 5 and fewer than \<open>2 ^ 32\<close>
  skills (the length of an array). The score of the available one is the score of the
  other plus 2, rounded as every sum of the program is, and it is strictly the higher of
  the two. In the ranking the unavailable one never stands before the available one, and
  when the unavailable one is ranked and the available one is on the roster, the available
  one is ranked too.
\<close>

theorem available_never_outranked:
  assumes "skills wa = skills wu" and "specialty wa = specialty wu" and "rating wa = rating wu"
    and "available wa" and "\<not> available wu"
    and "0 \<le> rating wu" and "rating wu \<le> 5" and "length (skills wu) < 2 ^ 32"
    and "CATEGORY_BY_ID (category s) = Some cd" and "rankWorkers ws s = Inr rk"
  shows "scoreWorker (rankKeywords cd s) (category s) wa
           = fadd (scoreWorker (rankKeywords cd s) (category s) wu) 2 \<and>
         scoreWorker (rankKeywords cd s) (category s) wu
           < scoreWorker (rankKeywords cd s) (category s) wa \<and>
         (\<forall>i j. i < j \<and> j < length rk \<longrightarrow> \<not> (rk ! i = wu \<and> rk ! j = wa)) \<and>
         (wu \<in> set rk \<and> wa \<in> set ws \<longrightarrow> wa \<in> set rk)"
proof -
  let ?kws = "rankKeywords cd s"
  let ?c = "category s"
  let ?sc = "scoreWorker ?kws ?c"
  let ?b = "baseScore ?kws ?c wu"
  have base: "baseScore ?kws ?c wa = ?b"
    using assms(1-3) by (simp add: baseScore_def skillMatch_def)
  have u: "?sc wu = ?b"
    using assms(5) by (simp add: scoreWorker_base fadd_def baseScore_double)
  have a: "?sc wa = toDouble (?b + 2)"
    using assms(4) base by (simp add: scoreWorker_base fadd_def)
  have eq: "?sc wa = fadd (?sc wu) 2"
    using a u by (simp add: fadd_def)
  have "toDouble ?b < toDouble (?b + 2)"
    using baseScore_range [OF assms(8,6,7), of ?kws ?c] by (intro toDouble_add2_gt) simp_all
  then have lt: "?sc wu < ?sc wa"
    using a u by (simp add: baseScore_double)
  have rk: "rk = rankWith ?sc ws"
    using assms(9,10) by (simp add: rankWorkers_eq)
  have ord: "\<forall>i j. i < j \<and> j < length rk \<longrightarrow> \<not> (rk ! i = wu \<and> rk ! j = wa)"
  proof (intro allI impI notI)
    fix i j
    assume "i < j \<and> j < length rk" and "rk ! i = wu \<and> rk ! j = wa"
    then have "?sc wa \<le> ?sc wu"
      using rankWith_order [of i j ?sc ws] rk by auto
    then show False
      using lt by simp
  qed
  have "wu \<in> set rk \<and> wa \<in> set ws \<longrightarrow> wa \<in> set rk"
    using rankWith_better_in [of wu ?sc ws wa] lt rk by blast
  then show ?thesis
    using eq lt ord by blast
qed

text \<open>
  With rating 2, no skill and another specialty, the scores are the doubles 4.4 and 2.4,
  which differ by \<open>2 + 2 ^ -51\<close>; the program's own subtraction gives that too.
\<close>

theorem availability_gap_counterexample:
  "skills (idleWorker True) = skills (idleWorker False) \<and>
   specialty (idleWorker True) = specialty (idleWorker False) \<and>
   rating (idleWorker True) = rating (idleWorker False) \<and>
   available (idleWorker True) \<and> \<not> available (idleWorker False) \<and>
   scoreWorker (rankKeywords (CATEGORY_DEFS ! 0) idleState) Plumber (idleWorker True)
     = 2476979795053773 / 562949953421312 \<and>
   scoreWorker (rankKeywords (CATEGORY_DEFS ! 0) idleState) Plumber (idleWorker False)
     = 5404319552844595 / 2251799813685248 \<and>
   scoreWorker (rankKeywords (CATEGORY_DEFS ! 0) idleState) Plumber (idleWorker True)
     - scoreWorker (rankKeywords (CATEGORY_DEFS ! 0) idleState) Plumber (idleWorker False)
     = 2 + 1 / 2251799813685248 \<and>
   fsub (scoreWorker (rankKeywords (CATEGORY_DEFS ! 0) idleState) Plumber (idleWorker True))
        (scoreWorker (rankKeywords (CATEGORY_DEFS ! 0) idleState) Plumber (idleWorker False))
     \<noteq> 2"
proof -
  have "fsub (2476979795053773 / 562949953421312) (5404319552844595 / 2251799813685248) \<noteq> 2"
    by code_simp
  then show ?thesis
    by (simp add: idle_scores) (simp add: idleWorker_def)
qed

theorem available_never_outranked_witness:
  "skills (idleWorker True) = skills (idleWorker False) \<and>
   specialty (idleWorker True) = specialty (idleWorker False) \<and>
   rating (idleWorker True) = rating (idleWorker False) \<and>
   available (idleWorker True) \<and> \<not> available (idleWorker False) \<and>
   0 \<le> rating (idleWorker False) \<and> rating (idleWorker False) \<le> 5 \<and>
   length (skills (idleWorker False)) < 2 ^ 32 \<and>
   rankWorkers [idleWorker False, idleWorker True] idleState
     = Inr [idleWorker True, idleWorker False] \<and>
   scoreWorker (rankKeywords (CATEGORY_DEFS ! 0) idleState) Plumber (idleWorker False)
     < scoreWorker (rankKeywords (CATEGORY_DEFS ! 0) idleState) Plumber (idleWorker True)"
proof -
  have h: "skills (idleWorker True) = skills (idleWorker False)"
    "specialty (idleWorker True) = specialty (idleWorker False)"
    "rating (idleWorker True) = rating (idleWorker False)"
    "available (idleWorker True)" "\<not> available (idleWorker False)"
    "0 \<le> rating (idleWorker False)" "rating (idleWorker False) \<le> 5"
    "length (skills (idleWorker False)) < 2 ^ 32"
    by (simp_all add: idleWorker_def)
  have p: "category idleState = Plumber"
    by (simp add: idleState_def)
  have r: "rankWorkers [idleWorker False, idleWorker True] idleState
     = Inr [idleWorker True, idleWorker False]"
    using idle_category by (simp add: rankWorkers_eq p rankWith_two idle_scores)
  show ?thesis
    using available_never_outranked [OF h idle_category r] h r by (simp add: p)
qed

section \<open>Reachable states of the wizard\<close>

lemma runEvents_reachable: "reachable m \<Longrightarrow> runEvents evs m = Some m' \<Longrightarrow> reachable m'"
proof (induction evs arbitrary: m)
  case Nil
  then show ?case by simp
next
  case (Cons ev evs)
  from Cons.prems(2) obtain m1 where "enabled m ev" "fire ev m = Inr m1" "runEvents evs m1 = Some m'"
    by (auto split: if_splits sum.splits)
  then show ?case
    using Cons.IH [of m1] Cons.prems(1) reach_step by blast
qed

lemma runEvents_append:
  "runEvents (xs @ ys) m = (case runEvents xs m of None \<Rightarrow> None | Some m' \<Rightarrow> runEvents ys m')"
  by (induction xs arbitrary: m) (simp_all split: sum.splits)

lemma categoryDef_total: "\<exists>cd. categoryDef s = Some cd \<and> faqs cd \<noteq> []"
  using CATEGORY_BY_ID_total [of "category s"] by (auto simp: categoryDef_def)

lemma wizardInv_unranked:
  assumes "categoryDef s = Some cd" and "0 \<le> faqIndex s" and "faqIndex s \<le> int (length (faqs cd)) - 1"
    and "ranked s = []" and "state m = s"
  shows "wizardInv m"
  using assms by (simp add: wizardInv_def)

text \<open>The invariant reads the state only, and there neither the open flag nor the problem.\<close>

lemma wizardInv_cong:
  assumes "wizardInv m" and "category (state m') = category (state m)"
    and "faqIndex (state m') = faqIndex (state m)" and "answers (state m') = answers (state m)"
    and "ranked (state m') = ranked (state m)" and "step (state m') = step (state m)"
  shows "wizardInv m'"
  using assms
  by (auto simp: wizardInv_def categoryDef_def rankKeywords_def Let_def split: option.splits)

text \<open>While nothing is ranked, the answers may change.\<close>

lemma wizardInv_unranked_cong:
  assumes "wizardInv m" and "ranked (state m) = []" and "category (state m') = category (state m)"
    and "faqIndex (state m') = faqIndex (state m)" and "ranked (state m') = []"
  shows "wizardInv m'"
  using assms by (auto simp: wizardInv_def categoryDef_def Let_def split: option.splits)

lemma wizardInv_Faqs_unranked: "wizardInv m \<Longrightarrow> step (state m) = Faqs \<Longrightarrow> ranked (state m) = []"
  by (auto simp: wizardInv_def Let_def split: option.splits)

lemma wizardInv_fresh: "state m = freshState b \<Longrightarrow> wizardInv m"
proof -
  assume s: "state m = freshState b"
  obtain cd where cd: "categoryDef (freshState b) = Some cd" "faqs cd \<noteq> []"
    using categoryDef_total by blast
  then have "0 < length (faqs cd)" by simp
  then show ?thesis
    using cd s by (intro wizardInv_unranked [of "freshState b" cd]) (simp_all add: freshState_def)
qed

lemma wizardInv_submitProblem: "wizardInv m \<Longrightarrow> step (state m) = Start \<Longrightarrow> wizardInv (submitProblem m)"
proof -
  assume inv: "wizardInv m" and st: "step (state m) = Start"
  have r: "ranked (state m) = []"
    using inv st by (auto simp: wizardInv_def Let_def split: option.splits)
  obtain cd where cd: "categoryDef (state (submitProblem m)) = Some cd" "faqs cd \<noteq> []"
    using categoryDef_total by blast
  then have "0 < length (faqs cd)" by simp
  then show ?thesis
    using cd r by (intro wizardInv_unranked [of "state (submitProblem m)" cd])
      (simp_all add: submitProblem_def Let_def)
qed

lemma wizardInv_prevFaq: "wizardInv m \<Longrightarrow> wizardInv (prevFaq m)"
  by (auto simp: wizardInv_def prevFaq_def Let_def categoryDef_def rankKeywords_def
      split: option.splits)

lemma wizardInv_nextFaq:
  assumes "wizardInv m" and "step (state m) = Faqs" and "nextFaq ws m = Inr m'"
  shows "wizardInv m'"
proof -
  obtain faq where faq: "currentFaq (state m) = Some faq"
    using currentFaq_total by blast
  define m1 where "m1 = recordText faq m"
  have r: "ranked (state m) = []"
    using assms(1,2) by (rule wizardInv_Faqs_unranked)
  have c1: "step (state m1) = Faqs" "category (state m1) = category (state m)"
    "faqIndex (state m1) = faqIndex (state m)" "ranked (state m1) = []"
    using assms(2) r by (auto simp: m1_def recordText_def)
  have i1: "wizardInv m1"
    using assms(1) r c1 by (intro wizardInv_unranked_cong [of m m1]) simp_all
  note m1 = i1 c1
  obtain cd where cd: "categoryDef (state m1) = Some cd"
    using categoryDef_total by blast
  then have fs: "faqsOf (state m1) = Some (faqs cd)"
    by (simp add: faqsOf_def)
  have r1: "ranked (state m1) = []"
    by (rule c1(4))
  have bnd: "0 \<le> faqIndex (state m1)" "faqIndex (state m1) \<le> int (length (faqs cd)) - 1"
    using m1(1) cd by (auto simp: wizardInv_def Let_def)
  show ?thesis
  proof (cases "faqIndex (state m1) < int (length (faqs cd)) - 1")
    case True
    then have "m' = m1\<lparr> state := (state m1)\<lparr> faqIndex := faqIndex (state m1) + 1 \<rparr> \<rparr>"
      using assms(3) faq fs by (simp add: nextFaq_def m1_def [symmetric])
    then show ?thesis
      using True bnd r1 cd
      by (intro wizardInv_unranked [of "state m'" cd]) (simp_all add: categoryDef_def)
  next
    case False
    let ?sc = "scoreWorker (rankKeywords cd (state m1)) (category (state m1))"
    have rw: "rankWorkers ws (state m1) = Inr (rankWith ?sc ws)"
      using cd by (simp add: rankWorkers_eq categoryDef_def)
    then have m': "m' = m1\<lparr> state := (state m1)\<lparr> step := Results, ranked := rankWith ?sc ws \<rparr> \<rparr>"
      using assms(3) faq fs False by (simp add: nextFaq_def m1_def [symmetric])
    have "length (rankWith ?sc ws) \<le> 3"
      by (simp add: rankWith_length)
    moreover have "sorted_wrt (\<lambda>a b. ?sc b \<le> ?sc a) (rankWith ?sc ws)"
      by (rule rankWith_sorted)
    ultimately show ?thesis
      using bnd cd by (simp add: m' wizardInv_def Let_def categoryDef_def rankKeywords_def)
  qed
qed

lemma wizardInv_fire:
  assumes "wizardInv m" and "enabled m ev" and "fire ev m = Inr m'"
  shows "wizardInv m'"
proof (cases ev)
  case (SetIsOpen b)
  then have "m' = ngOnChanges (m\<lparr> input_isOpen := b \<rparr>)"
    using assms(3) by simp
  then show ?thesis
    using assms(1) wizardInv_fresh [of m' True] wizardInv_cong [of m m']
    by (cases b) (simp_all add: ngOnChanges_def)
next
  case Close
  then show ?thesis
    using assms wizardInv_cong [of m m'] by (auto simp: close_def)
next
  case (DraftInput t)
  then show ?thesis
    using assms wizardInv_cong [of m m'] by auto
next
  case SubmitProblem
  then show ?thesis
    using assms wizardInv_submitProblem by auto
next
  case (AnswerTextInput t)
  then show ?thesis
    using assms wizardInv_cong [of m m'] by auto
next
  case (AnswerBoolean v)
  then have "step (state m) = Faqs"
    using assms(2) by (simp add: showsKind_def)
  then have "ranked (state m) = []"
    using assms(1) wizardInv_Faqs_unranked by blast
  then show ?thesis
    using AnswerBoolean assms(1,3) wizardInv_unranked_cong [of m m']
    by (auto simp: answerBoolean_def split: option.splits)
next
  case (AnswerSelect v)
  then have "step (state m) = Faqs"
    using assms(2) by (simp add: showsKind_def)
  then have "ranked (state m) = []"
    using assms(1) wizardInv_Faqs_unranked by blast
  then show ?thesis
    using AnswerSelect assms(1,3) wizardInv_unranked_cong [of m m']
    by (auto simp: answerSelect_def split: option.splits)
next
  case PrevFaq
  then show ?thesis
    using assms wizardInv_prevFaq by auto
next
  case (NextFaq ws)
  then show ?thesis
    using assms wizardInv_nextFaq by auto
next
  case (Book w)
  then show ?thesis
    using assms wizardInv_cong [of m m'] by (auto simp: close_def)
qed

text \<open>
  C7. In every state that the wizard reaches from its initial state by events that the
  template enables, the question index lies between 0 and the length of the active
  category's questionnaire minus 1, the ranked list is empty unless the step is the
  results, and it holds at most 3 workers in non-increasing order of score. Retreating
  keeps all this, and from index 0 it leaves the index at 0.
\<close>

theorem reachable_invariant:
  assumes "reachable m"
  shows "wizardInv m \<and> wizardInv (prevFaq m) \<and>
         (faqIndex (state m) = 0 \<longrightarrow> faqIndex (state (prevFaq m)) = 0)"
proof -
  have "wizardInv m"
    using assms
  proof (induction rule: reachable.induct)
    case reach_init
    then show ?case
      by (intro wizardInv_fresh [of _ False]) (simp add: initialModal_def)
  next
    case (reach_step m ev m')
    then show ?case
      using wizardInv_fire by blast
  qed
  then show ?thesis
    using wizardInv_prevFaq by (simp add: prevFaq_def)
qed


text \<open>The last step of the sample session, with the two scores evaluated once.\<close>

lemma sink_run: "runEvents (take 10 sinkEvents) initialModal = Some sinkLast"
  by code_simp

lemma sink_scores:
  "scoreWorker (rankKeywords (CATEGORY_DEFS ! 0) (state sinkLast)) Plumber sinkWorker
     = 5494391545392005 / 562949953421312"
  "scoreWorker (rankKeywords (CATEGORY_DEFS ! 0) (state sinkLast)) Plumber sparkWorker
     = 8872091265919877 / 1125899906842624"
  by code_simp+

lemma sink_last_facts:
  "currentFaq (state sinkLast) = Some (faqs (CATEGORY_DEFS ! 0) ! 3)"
  "faqsOf (state sinkLast) = Some (faqs (CATEGORY_DEFS ! 0))"
  "length (faqs (CATEGORY_DEFS ! 0)) = 4"
  "faq_type (faqs (CATEGORY_DEFS ! 0) ! 3) = SelectQ"
  "CATEGORY_BY_ID Plumber = Some (CATEGORY_DEFS ! 0)"
  by code_simp+

lemma sink_next:
  "nextFaq [sparkWorker, sinkWorker] sinkLast
     = Inr (sinkLast\<lparr> state := (state sinkLast)\<lparr> step := Results,
                                                ranked := [sinkWorker, sparkWorker] \<rparr> \<rparr>)"
proof -
  have s: "category (state sinkLast) = Plumber" "faqIndex (state sinkLast) = 3"
    by (simp_all add: sinkLast_def)
  have "rankWorkers [sparkWorker, sinkWorker] (state sinkLast) = Inr [sinkWorker, sparkWorker]"
    using sink_last_facts(5) by (simp add: rankWorkers_eq s rankWith_two sink_scores)
  then show ?thesis
    by (simp add: nextFaq_def sink_last_facts(1-4) recordText_def s)
qed

theorem reachable_invariant_witness:
  "runEvents (take 3 sinkEvents) initialModal \<noteq> None \<and>
   runEvents sinkEvents initialModal \<noteq> None \<and>
   (\<exists>m. runEvents (take 3 sinkEvents) initialModal = Some m \<and> wizardInv m \<and>
        step (state m) = Faqs \<and> category (state m) = Plumber \<and>
        faqIndex (state m) = 0 \<and> faqIndex (state (prevFaq m)) = 0) \<and>
   (\<exists>m. runEvents sinkEvents initialModal = Some m \<and> wizardInv m \<and>
        step (state m) = Results \<and> faqIndex (state m) = 3 \<and>
        ranked (state m) = [sinkWorker, sparkWorker])"
proof -
  have a: "map_option (\<lambda>m. (step (state m), category (state m), faqIndex (state m)))
     (runEvents (take 3 sinkEvents) initialModal) = Some (Faqs, Plumber, 0)"
    by code_simp
  then obtain m1 where m1: "runEvents (take 3 sinkEvents) initialModal = Some m1"
    "step (state m1) = Faqs" "category (state m1) = Plumber" "faqIndex (state m1) = 0"
    by auto
  define m2 where "m2 = sinkLast\<lparr> state := (state sinkLast)\<lparr> step := Results,
      ranked := [sinkWorker, sparkWorker] \<rparr> \<rparr>"
  have e: "sinkEvents = take 10 sinkEvents @ [NextFaq [sparkWorker, sinkWorker]]"
    by (simp add: sinkEvents_def)
  have en: "enabled sinkLast (NextFaq [sparkWorker, sinkWorker])"
    by (simp add: sinkLast_def)
  have r10: "reachable sinkLast"
    using runEvents_reachable [OF reach_init sink_run] .
  have r2: "reachable m2"
    using reach_step [OF r10 en] sink_next by (simp add: m2_def)
  have "runEvents (take 10 sinkEvents @ [NextFaq [sparkWorker, sinkWorker]]) initialModal = Some m2"
    using en sink_next by (simp add: runEvents_append sink_run m2_def)
  then have run2: "runEvents sinkEvents initialModal = Some m2"
    using e by simp
  have r1: "reachable m1"
    using runEvents_reachable [OF reach_init m1(1)] .
  have "wizardInv m1 \<and> faqIndex (state (prevFaq m1)) = 0"
    using reachable_invariant [OF r1] m1(4) by blast
  moreover have "wizardInv m2"
    using reachable_invariant [OF r2] by blast
  moreover have "step (state m2) = Results \<and> faqIndex (state m2) = 3 \<and>
      ranked (state m2) = [sinkWorker, sparkWorker]"
    by (simp add: m2_def sinkLast_def)
  ultimately show ?thesis
    using m1 run2 by auto
qed

end
